theory Spec2Isabelle
  imports Complex_Main
begin

section \<open>Python values handled by the webhook\<close>

text \<open>
  The handler of \<^verbatim>\<open>app.py\<close> works on whatever \<^verbatim>\<open>request.get_json(silent=True)\<close>
  returns: any JSON value, or \<^verbatim>\<open>None\<close> when the body is absent or cannot be parsed.
  A JSON number is a Python \<^verbatim>\<open>int\<close> or \<^verbatim>\<open>float\<close>; the standard decoder also yields
  the floats \<^verbatim>\<open>inf\<close>, \<^verbatim>\<open>-inf\<close> and \<^verbatim>\<open>nan\<close> (for \<^verbatim>\<open>1e999\<close>, \<^verbatim>\<open>Infinity\<close>, \<^verbatim>\<open>NaN\<close>).
  Finite floats are represented by the rational they denote. A JSON object is the
  Python dict it decodes to, given by its entries and read with \<open>map_of\<close>. A \<^verbatim>\<open>str\<close> is
  given by its UTF-8 encoding, a list of bytes: two strings are equal exactly when
  their encodings are, and one occurs in the other exactly when its encoding does.
\<close>

datatype pyfloat = Finite rat | PosInf | NegInf | NaN

datatype json =
    JNull
  | JBool bool
  | JInt int
  | JFloat pyfloat
  | JString string
  | JArray "json list"
  | JObject "(string \<times> json) list"

text \<open>The exceptions the handler can meet; only the first two are caught at line 167.\<close>

datatype exn = ValueError | TypeError | OverflowError | AttributeError | KeyError

text \<open>Truth value of a Python object (\<^verbatim>\<open>not request_data\<close>, line 159).\<close>

fun truthy :: "json \<Rightarrow> bool" where
  "truthy JNull = False"
| "truthy (JBool b) = b"
| "truthy (JInt n) = (n \<noteq> 0)"
| "truthy (JFloat f) = (f \<noteq> Finite 0)"
| "truthy (JString s) = (s \<noteq> [])"
| "truthy (JArray xs) = (xs \<noteq> [])"
| "truthy (JObject kvs) = (kvs \<noteq> [])"

fun starts_with :: "string \<Rightarrow> string \<Rightarrow> bool" where
  "starts_with [] s = True"
| "starts_with (c # cs) [] = False"
| "starts_with (c # cs) (d # ds) = (c = d \<and> starts_with cs ds)"

fun substring :: "string \<Rightarrow> string \<Rightarrow> bool" where
  "substring sub [] = (sub = [])"
| "substring sub (c # cs) = (starts_with sub (c # cs) \<or> substring sub cs)"

text \<open>
  \<^verbatim>\<open>key in x\<close> for a string key: key membership in a dict, element membership in a list,
  substring test in a string, and \<^verbatim>\<open>TypeError\<close> for a number, a boolean or \<^verbatim>\<open>None\<close>.
\<close>

fun py_in :: "string \<Rightarrow> json \<Rightarrow> exn + bool" where
  "py_in k (JObject kvs) = Inr (map_of kvs k \<noteq> None)"
| "py_in k (JArray xs) = Inr (JString k \<in> set xs)"
| "py_in k (JString s) = Inr (substring k s)"
| "py_in k JNull = Inl TypeError"
| "py_in k (JBool b) = Inl TypeError"
| "py_in k (JInt n) = Inl TypeError"
| "py_in k (JFloat f) = Inl TypeError"

text \<open>\<^verbatim>\<open>x[key]\<close> for a string key: only a dict can be indexed by a string.\<close>

fun getitem :: "json \<Rightarrow> string \<Rightarrow> exn + json" where
  "getitem (JObject kvs) k = (case map_of kvs k of Some v \<Rightarrow> Inr v | None \<Rightarrow> Inl KeyError)"
| "getitem (JArray xs) k = Inl TypeError"
| "getitem (JString s) k = Inl TypeError"
| "getitem JNull k = Inl TypeError"
| "getitem (JBool b) k = Inl TypeError"
| "getitem (JInt n) k = Inl TypeError"
| "getitem (JFloat f) k = Inl TypeError"

text \<open>\<^verbatim>\<open>d.get(key, default)\<close> on a dict.\<close>

definition dict_get :: "(string \<times> json) list \<Rightarrow> string \<Rightarrow> json \<Rightarrow> json" where
  "dict_get kvs k d = (case map_of kvs k of Some v \<Rightarrow> v | None \<Rightarrow> d)"

subsection \<open>The builtins \<^verbatim>\<open>str.lower\<close> and \<^verbatim>\<open>int\<close>\<close>

text \<open>
  What \<^verbatim>\<open>str.lower\<close> returns, and what \<^verbatim>\<open>int\<close> returns on a string, rests on the
  Unicode tables and on the version and the settings of the interpreter (the limit on
  the number of digits). Both are taken as they are: \<open>str_lower\<close> is \<^verbatim>\<open>str.lower\<close>, and
  \<open>int_str s\<close> is the value of \<^verbatim>\<open>int(s)\<close> for a string \<open>s\<close>, or \<open>None\<close> when \<^verbatim>\<open>int(s)\<close>
  raises \<^verbatim>\<open>ValueError\<close>.
\<close>

record builtins =
  str_lower :: "string \<Rightarrow> string"
  int_str :: "string \<Rightarrow> int option"

text \<open>\<^verbatim>\<open>x.lower()\<close>: only a string has the method.\<close>

fun py_lower :: "builtins \<Rightarrow> json \<Rightarrow> exn + string" where
  "py_lower py (JString s) = Inr (str_lower py s)"
| "py_lower py JNull = Inl AttributeError"
| "py_lower py (JBool b) = Inl AttributeError"
| "py_lower py (JInt n) = Inl AttributeError"
| "py_lower py (JFloat f) = Inl AttributeError"
| "py_lower py (JArray xs) = Inl AttributeError"
| "py_lower py (JObject kvs) = Inl AttributeError"

text \<open>Rounding towards zero, as \<^verbatim>\<open>int\<close> does on a finite float.\<close>

definition py_trunc :: "rat \<Rightarrow> int" where
  "py_trunc q = (if 0 \<le> q then \<lfloor>q\<rfloor> else \<lceil>q\<rceil>)"

text \<open>
  \<^verbatim>\<open>int(x)\<close>: \<^verbatim>\<open>ValueError\<close> for a string that is no number and for \<^verbatim>\<open>nan\<close>,
  \<^verbatim>\<open>TypeError\<close> for \<^verbatim>\<open>None\<close>, a list or a dict, \<^verbatim>\<open>OverflowError\<close> for an infinite float.
\<close>

fun py_int :: "builtins \<Rightarrow> json \<Rightarrow> exn + int" where
  "py_int py (JInt n) = Inr n"
| "py_int py (JBool b) = Inr (if b then 1 else 0)"
| "py_int py (JFloat (Finite q)) = Inr (py_trunc q)"
| "py_int py (JFloat PosInf) = Inl OverflowError"
| "py_int py (JFloat NegInf) = Inl OverflowError"
| "py_int py (JFloat NaN) = Inl ValueError"
| "py_int py (JString s) = (case int_str py s of Some n \<Rightarrow> Inr n | None \<Rightarrow> Inl ValueError)"
| "py_int py JNull = Inl TypeError"
| "py_int py (JArray xs) = Inl TypeError"
| "py_int py (JObject kvs) = Inl TypeError"

section \<open>Shared state, log and device\<close>

text \<open>
  A \<^verbatim>\<open>datetime\<close> is a count of microseconds, its resolution; a \<^verbatim>\<open>timedelta\<close> likewise.
  \<^verbatim>\<open>total_seconds\<close> returns a float in the source; the quotient is kept exact here. The
  test \<^verbatim>\<open>elapsed_time >= 7200\<close> is not affected: 7200 is a float and the float division
  is monotone and exact at 7200000000 microseconds.
\<close>

type_synonym datetime = int

definition total_seconds :: "int \<Rightarrow> rat" where
  "total_seconds d = of_int d / 1000000"

text \<open>
  The two command texts sent to the device: the enable text of lines 176--186 and the
  disable text of lines 94--104 and 129--139 (the same text in both places).
\<close>

datatype command = Enable | Disable

definition command_text :: "command \<Rightarrow> string list" where
  "command_text c =
     (let v = (case c of Enable \<Rightarrow> ''set status enable'' | Disable \<Rightarrow> ''set status disable'')
      in [''config firewall shaping-policy'',
          ''edit 17'', v, ''next'',
          ''edit 21'', v, ''next'',
          ''edit 22'', v, ''next'',
          ''end''])"

text \<open>
  What the SSH session does is given by the environment: it completes with the text of
  stdout and stderr, or some call inside the \<^verbatim>\<open>try\<close> raises and the text of the
  exception is kept. \<^verbatim>\<open>ssh_execute_command\<close> turns this into its result dict.
\<close>

datatype ssh_outcome = Completed string string | Raised string

datatype ssh_response =
    Success string string  \<comment> \<open>\<^verbatim>\<open>{'success': True, 'output': o, 'error': e}\<close>\<close>
  | Failure string         \<comment> \<open>\<^verbatim>\<open>{'success': False, 'error': str(e)}\<close>\<close>

text \<open>Who called \<^verbatim>\<open>ssh_execute_command\<close>: the request handler, the inactivity
  checker, or the delayed-disable thread with the given number.\<close>

datatype caller = Webhook | Watchdog | Task nat

datatype level = INFO | WARNING | ERROR

text \<open>The log lines of \<^verbatim>\<open>check_inactivity\<close>, \<^verbatim>\<open>delayed_disable\<close> and \<^verbatim>\<open>webhook\<close>,
  one constructor for each \<^verbatim>\<open>logger\<close> call, with the values it formats.\<close>

datatype msg =
    Inactivity_check rat                  \<comment> \<open>line 91\<close>
  | No_events_for_2_hours                 \<comment> \<open>line 93\<close>
  | Inactivity_disabled                   \<comment> \<open>line 107\<close>
  | Inactivity_failed string              \<comment> \<open>line 109\<close>
  | Starting_delay string int             \<comment> \<open>line 114\<close>
  | Cancelled_by_resume string            \<comment> \<open>line 122\<close>
  | Executing_disable string              \<comment> \<open>line 128\<close>
  | Delayed_disable_completed string      \<comment> \<open>line 142\<close>
  | Delayed_disable_failed string string  \<comment> \<open>line 144\<close>
  | Unauthorized_access                   \<comment> \<open>line 152\<close>
  | Incoming_request json string          \<comment> \<open>line 157\<close>
  | Invalid_request                       \<comment> \<open>line 160\<close>
  | Invalid_wan_streams json              \<comment> \<open>line 168\<close>
  | Processing_enable string              \<comment> \<open>line 174\<close>
  | Skipping_disable string int           \<comment> \<open>lines 195, 204\<close>
  | Triggering_delayed_disable string int \<comment> \<open>lines 198, 207\<close>
  | Ignoring_unhandled string             \<comment> \<open>line 212\<close>

text \<open>
  A thread running \<^verbatim>\<open>delayed_disable(event, wan_streams)\<close>, with its position in the
  function: started and before line 114; at the loop test of line 120 with the given
  value of \<^verbatim>\<open>elapsed\<close>; inside \<^verbatim>\<open>time.sleep(1)\<close> of line 124 with the given value of
  \<^verbatim>\<open>elapsed\<close>; returned at line 123; returned after line 144.
\<close>

datatype pc = Started | Loop_test nat | Sleeping nat | Cancelled | Expired

record thread =
  t_event :: string
  t_wan_streams :: int
  pc :: pc

text \<open>
  The globals \<^verbatim>\<open>last_event_time\<close> and \<^verbatim>\<open>resume_event\<close> (lines 56, 57), the threads
  started at lines 199 and 208 in the order of their start, the calls of
  \<^verbatim>\<open>ssh_execute_command\<close> in the order they were made, and the log.
\<close>

record state =
  last_event_time :: datetime
  resume_event :: bool
  threads :: "thread list"
  ssh_calls :: "(caller \<times> command) list"
  logger :: "(level \<times> msg) list"

definition init :: "datetime \<Rightarrow> state" where
  "init now =
     \<lparr>last_event_time = now, resume_event = False, threads = [], ssh_calls = [], logger = []\<rparr>"

definition log_line :: "level \<Rightarrow> msg \<Rightarrow> state \<Rightarrow> state" where
  "log_line l m s = s\<lparr>logger := logger s @ [(l, m)]\<rparr>"

text \<open>
  \<^verbatim>\<open>ssh_execute_command\<close> (lines 59--83): the call is recorded with its caller; the log
  lines written inside it are not modelled.
\<close>

definition ssh_execute_command ::
  "caller \<Rightarrow> command \<Rightarrow> ssh_outcome \<Rightarrow> state \<Rightarrow> ssh_response \<times> state" where
  "ssh_execute_command who command outcome s =
     (case outcome of
        Completed out err \<Rightarrow> Success out err
      | Raised e \<Rightarrow> Failure e,
      s\<lparr>ssh_calls := ssh_calls s @ [(who, command)]\<rparr>)"

section \<open>The inactivity checker\<close>

text \<open>
  One pass of the \<^verbatim>\<open>while True\<close> loop of \<^verbatim>\<open>check_inactivity\<close> (lines 88--110), after
  the \<^verbatim>\<open>time.sleep(300)\<close>. The clock is read twice: \<open>current_time\<close> at line 89 and
  \<open>now\<close> at line 110, after the SSH call.
\<close>

definition check_inactivity :: "datetime \<Rightarrow> ssh_outcome \<Rightarrow> datetime \<Rightarrow> state \<Rightarrow> state" where
  "check_inactivity current_time outcome now s =
     (let elapsed_time = total_seconds (current_time - last_event_time s);
          s1 = log_line INFO (Inactivity_check elapsed_time) s
      in if elapsed_time \<ge> 7200 then
           let s2 = log_line INFO No_events_for_2_hours s1;
               (response, s3) = ssh_execute_command Watchdog Disable outcome s2;
               s4 = (case response of
                       Success out err \<Rightarrow> log_line INFO Inactivity_disabled s3
                     | Failure e \<Rightarrow> log_line ERROR (Inactivity_failed e) s3)
           in s4\<lparr>last_event_time := now\<rparr>
         else s1)"

section \<open>The delayed disable\<close>

text \<open>
  One step of thread \<open>i\<close> in \<^verbatim>\<open>delayed_disable\<close> (lines 112--144). Each step reads or
  writes \<^verbatim>\<open>resume_event\<close> at most once:
  \<^item> lines 114--117: log, \<^verbatim>\<open>resume_event.clear()\<close>, \<^verbatim>\<open>elapsed = 0\<close>;
  \<^item> lines 120--123: the loop test and, inside the loop, \<^verbatim>\<open>resume_event.is_set()\<close>;
    when the loop is left, lines 128--144;
  \<^item> lines 124--125: the end of \<^verbatim>\<open>time.sleep(1)\<close> and \<^verbatim>\<open>elapsed += 1\<close>.
  A thread that has returned, or a number that names no thread, does nothing.
\<close>

definition set_pc :: "nat \<Rightarrow> pc \<Rightarrow> state \<Rightarrow> state" where
  "set_pc i p s = s\<lparr>threads := (threads s)[i := (threads s ! i)\<lparr>pc := p\<rparr>]\<rparr>"

definition delay_seconds :: nat where
  "delay_seconds = 120"

definition delayed_disable :: "nat \<Rightarrow> ssh_outcome \<Rightarrow> state \<Rightarrow> state" where
  "delayed_disable i outcome s =
     (if i < length (threads s) then
        let event = t_event (threads s ! i); wan_streams = t_wan_streams (threads s ! i) in
        case pc (threads s ! i) of
          Started \<Rightarrow>
            set_pc i (Loop_test 0)
              ((log_line INFO (Starting_delay event wan_streams) s)\<lparr>resume_event := False\<rparr>)
        | Loop_test elapsed \<Rightarrow>
            if elapsed < delay_seconds then
              if resume_event s
              then set_pc i Cancelled (log_line INFO (Cancelled_by_resume event) s)
              else set_pc i (Sleeping elapsed) s
            else
              let s1 = log_line INFO (Executing_disable event) s;
                  (response, s2) = ssh_execute_command (Task i) Disable outcome s1;
                  s3 = (case response of
                          Success out err \<Rightarrow> log_line INFO (Delayed_disable_completed event) s2
                        | Failure e \<Rightarrow> log_line ERROR (Delayed_disable_failed event e) s2)
              in set_pc i Expired s3
        | Sleeping elapsed \<Rightarrow> set_pc i (Loop_test (elapsed + 1)) s
        | Cancelled \<Rightarrow> s
        | Expired \<Rightarrow> s
      else s)"

section \<open>The request handler\<close>

text \<open>
  What the handler reads of a request: the two headers, absent or with their text, and
  the value of \<^verbatim>\<open>request.get_json(silent=True)\<close>, which is \<^verbatim>\<open>None\<close> (\<open>JNull\<close>) for an
  absent or unparsable body.
\<close>

record request =
  x_webhook_token :: "string option"
  x_forwarded_for :: "string option"
  get_json :: json

text \<open>The JSON bodies of the answers, one constructor for each \<^verbatim>\<open>jsonify\<close> call; an
  answer is a body with its status code.\<close>

datatype body =
    Error_unauthorized               \<comment> \<open>line 153\<close>
  | Error_invalid_request            \<comment> \<open>line 161\<close>
  | Message_executed string string   \<comment> \<open>line 189: the event and \<^verbatim>\<open>response['output']\<close>\<close>
  | Error_text string                \<comment> \<open>line 191: \<^verbatim>\<open>response['error']\<close>\<close>
  | Message_ignored_streams string int  \<comment> \<open>lines 196, 205\<close>
  | Message_scheduled string         \<comment> \<open>lines 200, 209\<close>
  | Message_ignored string           \<comment> \<open>line 213\<close>

type_synonym http_response = "body \<times> nat"

text \<open>
  Lines 150--169 end in one of three ways: an exception leaves the handler (the
  framework answers it with status 500), the request is answered at once, or the
  lower-cased event and the stream count go on to line 171.
\<close>

datatype received = Raises exn | Rejects http_response | Notification string int

fun py_get :: "json \<Rightarrow> string \<Rightarrow> json \<Rightarrow> exn + json" where
  "py_get (JObject kvs) k d = Inr (dict_get kvs k d)"
| "py_get (JArray xs) k d = Inl AttributeError"
| "py_get (JString s) k d = Inl AttributeError"
| "py_get JNull k d = Inl AttributeError"
| "py_get (JBool b) k d = Inl AttributeError"
| "py_get (JInt n) k d = Inl AttributeError"
| "py_get (JFloat f) k d = Inl AttributeError"

definition authorized :: "string \<Rightarrow> string option \<Rightarrow> bool" where
  "authorized WEBHOOK_TOKEN auth_token =
     (case auth_token of None \<Rightarrow> False | Some t \<Rightarrow> \<not> (t = [] \<or> t \<noteq> WEBHOOK_TOKEN))"

definition receive ::
  "builtins \<Rightarrow> string \<Rightarrow> request \<Rightarrow> received \<times> (level \<times> msg) list" where
  "receive py WEBHOOK_TOKEN req =
     (if \<not> authorized WEBHOOK_TOKEN (x_webhook_token req)
      then (Rejects (Error_unauthorized, 401), [(WARNING, Unauthorized_access)])
      else
        let request_data = get_json req;
            forwarded = (case x_forwarded_for req of None \<Rightarrow> ''Not provided'' | Some a \<Rightarrow> a);
            l1 = [(INFO, Incoming_request request_data forwarded)]
        in
        case (if \<not> truthy request_data then Inr True
              else (case py_in ''event'' request_data of Inl e \<Rightarrow> Inl e | Inr b \<Rightarrow> Inr (\<not> b))) of
          Inl e \<Rightarrow> (Raises e, l1)
        | Inr invalid \<Rightarrow>
            if invalid
            then (Rejects (Error_invalid_request, 400), l1 @ [(WARNING, Invalid_request)])
            else
              (case getitem request_data ''event'' of
                 Inl e \<Rightarrow> (Raises e, l1)
               | Inr ev \<Rightarrow>
                  (case py_lower py ev of
                     Inl e \<Rightarrow> (Raises e, l1)
                   | Inr event \<Rightarrow>
                      (case py_get request_data ''wan_streams'' (JInt 0) of
                         Inl e \<Rightarrow> (Raises e, l1)
                       | Inr wan_streams \<Rightarrow>
                          (case py_int py wan_streams of
                             Inr n \<Rightarrow> (Notification event n, l1)
                           | Inl e \<Rightarrow>
                               if e = ValueError \<or> e = TypeError
                               then (Notification event 0,
                                     l1 @ [(WARNING, Invalid_wan_streams wan_streams)])
                               else (Raises e, l1))))))"

text \<open>Starting a thread at lines 199 and 208.\<close>

definition start_thread :: "string \<Rightarrow> int \<Rightarrow> state \<Rightarrow> state" where
  "start_thread event wan_streams s =
     s\<lparr>threads := threads s @ [\<lparr>t_event = event, t_wan_streams = wan_streams, pc = Started\<rparr>]\<rparr>"

text \<open>Lines 171--213, with the clock reading \<open>now\<close> of line 171.\<close>

definition dispatch ::
  "string \<Rightarrow> int \<Rightarrow> datetime \<Rightarrow> ssh_outcome \<Rightarrow> state \<Rightarrow> http_response \<times> state" where
  "dispatch event wan_streams now outcome s0 =
     (let s = s0\<lparr>last_event_time := now\<rparr> in
      if event \<in> set [''playback_start'', ''playback_resume''] then
        let s1 = (log_line INFO (Processing_enable event) s)\<lparr>resume_event := True\<rparr>;
            (response, s2) = ssh_execute_command Webhook Enable outcome s1
        in (case response of
              Success out err \<Rightarrow> ((Message_executed event out, 200), s2)
            | Failure e \<Rightarrow> ((Error_text e, 500), s2))
      else if event = ''playback_pause'' then
        if wan_streams > 1
        then ((Message_ignored_streams event wan_streams, 200),
              log_line INFO (Skipping_disable event wan_streams) s)
        else ((Message_scheduled event, 200),
              start_thread event wan_streams
                (log_line INFO (Triggering_delayed_disable event wan_streams) s))
      else if event = ''playback_stop'' then
        if wan_streams \<ge> 1
        then ((Message_ignored_streams event wan_streams, 200),
              log_line INFO (Skipping_disable event wan_streams) s)
        else ((Message_scheduled event, 200),
              start_thread event wan_streams
                (log_line INFO (Triggering_delayed_disable event wan_streams) s))
      else ((Message_ignored event, 200), log_line INFO (Ignoring_unhandled event) s))"

text \<open>
  \<^verbatim>\<open>webhook\<close> (lines 147--213). \<open>WEBHOOK_TOKEN\<close> is the value of the environment
  variable (line 40) and \<open>py\<close> are the two builtins. The result is the exception
  that leaves the handler or the answer.
\<close>

definition webhook ::
  "builtins \<Rightarrow> string \<Rightarrow> request \<Rightarrow> datetime \<Rightarrow> ssh_outcome \<Rightarrow> state \<Rightarrow>
   (exn + http_response) \<times> state" where
  "webhook py WEBHOOK_TOKEN req now outcome s =
     (case receive py WEBHOOK_TOKEN req of
        (Raises e, ls) \<Rightarrow> (Inl e, s\<lparr>logger := logger s @ ls\<rparr>)
      | (Rejects answer, ls) \<Rightarrow> (Inr answer, s\<lparr>logger := logger s @ ls\<rparr>)
      | (Notification event wan_streams, ls) \<Rightarrow>
          (let (answer, s') = dispatch event wan_streams now outcome (s\<lparr>logger := logger s @ ls\<rparr>)
           in (Inr answer, s')))"

section \<open>The running process\<close>

text \<open>
  The process is the request handler, the inactivity checker and the delayed-disable
  threads, running concurrently on the shared state. A run is a list of actions, each
  executed as a whole: a request handled, one pass of the inactivity checker, or one
  step of a delayed-disable thread. The clock readings and the behaviour of the SSH
  session come with the action. Interleavings inside one handler call or one pass of
  the checker are not modelled.
\<close>

datatype action =
    Request request datetime ssh_outcome
  | Tick datetime ssh_outcome datetime
  | Thread_step nat ssh_outcome

fun step :: "builtins \<Rightarrow> string \<Rightarrow> action \<Rightarrow> state \<Rightarrow> state" where
  "step py tok (Request req now outcome) s = snd (webhook py tok req now outcome s)"
| "step py tok (Tick current_time outcome now) s = check_inactivity current_time outcome now s"
| "step py tok (Thread_step i outcome) s = delayed_disable i outcome s"

fun run :: "builtins \<Rightarrow> string \<Rightarrow> action list \<Rightarrow> state \<Rightarrow> state" where
  "run py tok [] s = s"
| "run py tok (a # as) s = run py tok as (step py tok a s)"

text \<open>
  The passes of the \<^verbatim>\<open>while True\<close> loop of \<^verbatim>\<open>check_inactivity\<close> when nothing else
  runs in between: each pass comes with its two clock readings and the behaviour of
  the SSH session.
\<close>

fun check_inactivity_loop :: "(datetime \<times> ssh_outcome \<times> datetime) list \<Rightarrow> state \<Rightarrow> state" where
  "check_inactivity_loop [] s = s"
| "check_inactivity_loop ((current_time, outcome, now) # passes) s =
     check_inactivity_loop passes (check_inactivity current_time outcome now s)"

text \<open>The clock readings of line 89 in the passes that call \<^verbatim>\<open>ssh_execute_command\<close>.\<close>

fun attempts :: "(datetime \<times> ssh_outcome \<times> datetime) list \<Rightarrow> state \<Rightarrow> datetime list" where
  "attempts [] s = []"
| "attempts ((current_time, outcome, now) # passes) s =
     (if ssh_calls (check_inactivity current_time outcome now s) \<noteq> ssh_calls s
      then [current_time] else [])
     @ attempts passes (check_inactivity current_time outcome now s)"

subsection \<open>Observing a run\<close>

text \<open>The calls of \<^verbatim>\<open>ssh_execute_command\<close> made by one caller.\<close>

definition calls_by :: "caller \<Rightarrow> state \<Rightarrow> (caller \<times> command) list" where
  "calls_by who s = filter (\<lambda>c. fst c = who) (ssh_calls s)"

text \<open>How often thread \<open>i\<close> is scheduled in a list of actions.\<close>

fun steps_of :: "nat \<Rightarrow> action list \<Rightarrow> nat" where
  "steps_of i [] = 0"
| "steps_of i (Thread_step j outcome # as) = (if j = i then 1 else 0) + steps_of i as"
| "steps_of i (Request req now outcome # as) = steps_of i as"
| "steps_of i (Tick current_time outcome now # as) = steps_of i as"

text \<open>
  What thread \<open>i\<close> reads from \<^verbatim>\<open>resume_event.is_set()\<close> (line 121) when the action is
  executed in the state: one value when the action is a step of thread \<open>i\<close> that enters
  the loop body, nothing otherwise.
\<close>

fun poll :: "nat \<Rightarrow> action \<Rightarrow> state \<Rightarrow> bool list" where
  "poll i (Thread_step j outcome) s =
     (if j = i \<and> i < length (threads s) then
        (case pc (threads s ! i) of
           Loop_test elapsed \<Rightarrow> if elapsed < delay_seconds then [resume_event s] else []
         | Started \<Rightarrow> []
         | Sleeping elapsed \<Rightarrow> []
         | Cancelled \<Rightarrow> []
         | Expired \<Rightarrow> [])
      else [])"
| "poll i (Request req now outcome) s = []"
| "poll i (Tick current_time outcome now) s = []"

text \<open>The values thread \<open>i\<close> reads from \<^verbatim>\<open>resume_event.is_set()\<close> during a run, in order.\<close>

fun polls :: "builtins \<Rightarrow> string \<Rightarrow> nat \<Rightarrow> action list \<Rightarrow> state \<Rightarrow> bool list" where
  "polls py tok i [] s = []"
| "polls py tok i (a # as) s = poll i a s @ polls py tok i as (step py tok a s)"

text \<open>The action is a request that reaches line 175 (\<^verbatim>\<open>resume_event.set()\<close>).\<close>

fun sets_resume_event :: "builtins \<Rightarrow> string \<Rightarrow> action \<Rightarrow> bool" where
  "sets_resume_event py tok (Request req now outcome) =
     (case fst (receive py tok req) of
        Notification event wan_streams \<Rightarrow> event \<in> set [''playback_start'', ''playback_resume'']
      | Raises e \<Rightarrow> False
      | Rejects answer \<Rightarrow> False)"
| "sets_resume_event py tok (Tick current_time outcome now) = False"
| "sets_resume_event py tok (Thread_step i outcome) = False"

text \<open>The action, executed in the state, is the first step of a thread: it reaches
  line 115 (\<^verbatim>\<open>resume_event.clear()\<close>).\<close>

fun clears_resume_event :: "action \<Rightarrow> state \<Rightarrow> bool" where
  "clears_resume_event (Thread_step i outcome) s =
     (i < length (threads s) \<and> pc (threads s ! i) = Started)"
| "clears_resume_event (Request req now outcome) s = False"
| "clears_resume_event (Tick current_time outcome now) s = False"

text \<open>No action of the run reaches \<^verbatim>\<open>resume_event.clear()\<close>.\<close>

fun no_clear :: "builtins \<Rightarrow> string \<Rightarrow> action list \<Rightarrow> state \<Rightarrow> bool" where
  "no_clear py tok [] s = True"
| "no_clear py tok (a # as) s = (\<not> clears_resume_event a s \<and> no_clear py tok as (step py tok a s))"

text \<open>The lines that the action, executed in the state, writes to the log when it is a
  step of thread \<open>i\<close>.\<close>

fun own_lines :: "nat \<Rightarrow> action \<Rightarrow> state \<Rightarrow> (level \<times> msg) list" where
  "own_lines i (Thread_step j outcome) s =
     (if j = i then drop (length (logger s)) (logger (delayed_disable j outcome s)) else [])"
| "own_lines i (Request req now outcome) s = []"
| "own_lines i (Tick current_time outcome now) s = []"

text \<open>The lines thread \<open>i\<close> writes to the log during a run, in order.\<close>

fun thread_log :: "builtins \<Rightarrow> string \<Rightarrow> nat \<Rightarrow> action list \<Rightarrow> state \<Rightarrow> (level \<times> msg) list" where
  "thread_log py tok i [] s = []"
| "thread_log py tok i (a # as) s = own_lines i a s @ thread_log py tok i as (step py tok a s)"

text \<open>
  What the SSH session does in the call of line 140 when the action, executed in the
  state, is the step of thread \<open>i\<close> that leaves the loop; nothing otherwise.
\<close>

fun call_outcome :: "nat \<Rightarrow> action \<Rightarrow> state \<Rightarrow> ssh_outcome list" where
  "call_outcome i (Thread_step j outcome) s =
     (if j = i \<and> i < length (threads s) then
        (case pc (threads s ! i) of
           Loop_test elapsed \<Rightarrow> if elapsed < delay_seconds then [] else [outcome]
         | Started \<Rightarrow> []
         | Sleeping elapsed \<Rightarrow> []
         | Cancelled \<Rightarrow> []
         | Expired \<Rightarrow> [])
      else [])"
| "call_outcome i (Request req now outcome) s = []"
| "call_outcome i (Tick current_time outcome now) s = []"

text \<open>What the SSH sessions of the calls of thread \<open>i\<close> do during a run, in order.\<close>

fun call_outcomes :: "builtins \<Rightarrow> string \<Rightarrow> nat \<Rightarrow> action list \<Rightarrow> state \<Rightarrow> ssh_outcome list" where
  "call_outcomes py tok i [] s = []"
| "call_outcomes py tok i (a # as) s =
     call_outcome i a s @ call_outcomes py tok i as (step py tok a s)"

text \<open>The line that reports what the SSH session did: line 142 when it completed,
  line 144 with the text of the exception when it raised.\<close>

definition outcome_line :: "string \<Rightarrow> ssh_outcome \<Rightarrow> level \<times> msg" where
  "outcome_line event outcome =
     (case outcome of
        Completed out err \<Rightarrow> (INFO, Delayed_disable_completed event)
      | Raised e \<Rightarrow> (ERROR, Delayed_disable_failed event e))"

subsection \<open>Example inputs\<close>

text \<open>
  The two builtins for the example runs, as CPython 3.11 with its default settings
  computes them on ASCII strings: \<^verbatim>\<open>str.lower\<close> maps \<^verbatim>\<open>A\<close>--\<^verbatim>\<open>Z\<close> to \<^verbatim>\<open>a\<close>--\<^verbatim>\<open>z\<close>; \<^verbatim>\<open>int\<close>
  removes the whitespace characters 9--13 and 32 at both ends and reads an optional
  sign and at most 4300 decimal digits, where a single underscore may stand between
  two digits. On strings with other bytes they stand for nothing.
\<close>

definition lower_char :: "char \<Rightarrow> char" where
  "lower_char c =
     (let n = (of_char c :: nat) in if 65 \<le> n \<and> n \<le> 90 then char_of (n + 32) else c)"

definition is_space :: "char \<Rightarrow> bool" where
  "is_space c = ((of_char c :: nat) \<in> set [9, 10, 11, 12, 13, 32])"

definition strip :: "string \<Rightarrow> string" where
  "strip s = rev (dropWhile is_space (rev (dropWhile is_space s)))"

definition digit_of :: "char \<Rightarrow> nat option" where
  "digit_of c =
     (let n = (of_char c :: nat) in if 48 \<le> n \<and> n \<le> 57 then Some (n - 48) else None)"

text \<open>
  Decimal digits, where a single underscore may stand between two digits. The first
  argument is the value of the digits read so far (at least one).
\<close>

fun parse_digits :: "nat \<Rightarrow> string \<Rightarrow> nat option" where
  "parse_digits acc [] = Some acc"
| "parse_digits acc [c] =
     (case digit_of c of None \<Rightarrow> None | Some v \<Rightarrow> Some (10 * acc + v))"
| "parse_digits acc (c # d # ds) =
     (if c = CHR ''_''
      then (case digit_of d of None \<Rightarrow> None | Some v \<Rightarrow> parse_digits (10 * acc + v) ds)
      else (case digit_of c of None \<Rightarrow> None | Some v \<Rightarrow> parse_digits (10 * acc + v) (d # ds)))"

definition parse_nat :: "string \<Rightarrow> nat option" where
  "parse_nat s =
     (if length (filter (\<lambda>c. digit_of c \<noteq> None) s) > 4300 then None
      else
        (case s of
           [] \<Rightarrow> None
         | c # cs \<Rightarrow> (case digit_of c of None \<Rightarrow> None | Some v \<Rightarrow> parse_digits v cs)))"

definition int_of_string :: "string \<Rightarrow> int option" where
  "int_of_string s =
     (case strip s of
        [] \<Rightarrow> None
      | c # cs \<Rightarrow>
          if c = CHR ''-'' then map_option (\<lambda>n. - int n) (parse_nat cs)
          else if c = CHR ''+'' then map_option int (parse_nat cs)
          else map_option int (parse_nat (c # cs)))"

definition ascii :: builtins where
  "ascii = \<lparr>str_lower = map lower_char, int_str = int_of_string\<rparr>"

text \<open>A request with the token \<^verbatim>\<open>secret\<close> and a JSON object with the two fields.\<close>

definition example_request :: "string \<Rightarrow> json \<Rightarrow> request" where
  "example_request event wan_streams =
     \<lparr>x_webhook_token = Some ''secret'', x_forwarded_for = None,
      get_json = JObject [(''event'', JString event), (''wan_streams'', wan_streams)]\<rparr>"

text \<open>A request with the token \<^verbatim>\<open>secret\<close> and the given value of \<^verbatim>\<open>get_json\<close>.\<close>

definition example_body :: "json \<Rightarrow> request" where
  "example_body request_data =
     \<lparr>x_webhook_token = Some ''secret'', x_forwarded_for = None, get_json = request_data\<rparr>"

text \<open>Actions for example runs: a pause and a resume request with the token
  \<^verbatim>\<open>secret\<close>, handled at the given clock reading, and a step of a thread whose SSH session, if it comes to it, fails.\<close>

definition pause_action :: "datetime \<Rightarrow> action" where
  "pause_action now = Request (example_request ''playback_pause'' (JInt 0)) now (Raised ''down'')"

definition resume_action :: "datetime \<Rightarrow> action" where
  "resume_action now =
     Request (example_request ''playback_resume'' (JInt 0)) now (Completed ''ok'' [])"

definition thread_action :: "nat \<Rightarrow> action" where
  "thread_action i = Thread_step i (Raised ''down'')"

subsection \<open>The course of one delayed-disable thread\<close>

text \<open>
  Where thread \<open>i\<close> can be after it was scheduled \<open>n\<close> times since its start and read
  the values \<open>obs\<close> from \<^verbatim>\<open>resume_event.is_set()\<close>; \<open>c0\<close> are the calls of
  \<^verbatim>\<open>ssh_execute_command\<close> recorded for it at its start.
\<close>

definition delayed_inv ::
  "nat \<Rightarrow> (caller \<times> command) list \<Rightarrow> nat \<Rightarrow> bool list \<Rightarrow> state \<Rightarrow> bool" where
  "delayed_inv i c0 n obs s =
     (i < length (threads s) \<and>
      (case pc (threads s ! i) of
         Started \<Rightarrow> n = 0 \<and> obs = [] \<and> calls_by (Task i) s = c0
       | Loop_test k \<Rightarrow>
           k \<le> delay_seconds \<and> n = 2 * k + 1 \<and> obs = replicate k False \<and>
           calls_by (Task i) s = c0
       | Sleeping k \<Rightarrow>
           k < delay_seconds \<and> n = 2 * k + 2 \<and> obs = replicate (k + 1) False \<and>
           calls_by (Task i) s = c0
       | Cancelled \<Rightarrow>
           (\<exists>k < delay_seconds. obs = replicate k False @ [True] \<and> 2 * k + 2 \<le> n) \<and>
           calls_by (Task i) s = c0
       | Expired \<Rightarrow>
           2 * delay_seconds + 2 \<le> n \<and> obs = replicate delay_seconds False \<and>
           calls_by (Task i) s = c0 @ [(Task i, Disable)]))"

text \<open>
  What thread \<open>i\<close>, started for the event \<open>ev\<close> with the stream count \<open>ws\<close>, has written
  to the log (\<open>tlog\<close>) and what the SSH sessions of its calls did (\<open>outs\<close>), by its
  position; \<open>lg0\<close> is the log at its start.
\<close>

definition logged_inv ::
  "nat \<Rightarrow> string \<Rightarrow> int \<Rightarrow> (level \<times> msg) list \<Rightarrow> (level \<times> msg) list \<Rightarrow> ssh_outcome list \<Rightarrow>
   state \<Rightarrow> bool" where
  "logged_inv i ev ws lg0 tlog outs s =
     (i < length (threads s) \<and> t_event (threads s ! i) = ev \<and>
      t_wan_streams (threads s ! i) = ws \<and>
      (\<exists>ls. logger s = lg0 @ ls \<and> set tlog \<subseteq> set ls) \<and>
      (case pc (threads s ! i) of
         Started \<Rightarrow> tlog = [] \<and> outs = []
       | Loop_test k \<Rightarrow> tlog = [(INFO, Starting_delay ev ws)] \<and> outs = []
       | Sleeping k \<Rightarrow> tlog = [(INFO, Starting_delay ev ws)] \<and> outs = []
       | Cancelled \<Rightarrow>
           tlog = [(INFO, Starting_delay ev ws), (INFO, Cancelled_by_resume ev)] \<and> outs = []
       | Expired \<Rightarrow>
           (\<exists>outcome. outs = [outcome] \<and>
              tlog = [(INFO, Starting_delay ev ws), (INFO, Executing_disable ev),
                    outcome_line ev outcome])))"

text \<open>
  Where thread \<open>i\<close> can be, scheduled \<open>n\<close> times since \<^verbatim>\<open>resume_event\<close> was set while it
  had a loop test with \<^verbatim>\<open>elapsed < delay_seconds\<close> ahead, as long as \<^verbatim>\<open>resume_event\<close> is
  not cleared; \<open>c0\<close> are the calls of \<^verbatim>\<open>ssh_execute_command\<close> recorded for it.
\<close>

definition cancel_inv :: "nat \<Rightarrow> (caller \<times> command) list \<Rightarrow> nat \<Rightarrow> state \<Rightarrow> bool" where
  "cancel_inv i c0 n s =
     (resume_event s \<and> i < length (threads s) \<and> calls_by (Task i) s = c0 \<and>
      (case pc (threads s ! i) of
         Loop_test k \<Rightarrow> k < delay_seconds \<and> n \<le> 1
       | Sleeping k \<Rightarrow> k + 1 < delay_seconds \<and> n = 0
       | Cancelled \<Rightarrow> True
       | Started \<Rightarrow> False
       | Expired \<Rightarrow> False))"

section \<open>Properties\<close>

subsection \<open>The request handler\<close>

lemma webhook_Notification:
  "receive py tok req = (Notification event n, ls) \<Longrightarrow>
   webhook py tok req now outcome s =
     (Inr (fst (dispatch event n now outcome (s\<lparr>logger := logger s @ ls\<rparr>))),
      snd (dispatch event n now outcome (s\<lparr>logger := logger s @ ls\<rparr>)))"
  by (simp add: webhook_def split: prod.splits)

lemma webhook_Rejects:
  "receive py tok req = (Rejects answer, ls) \<Longrightarrow>
   webhook py tok req now outcome s = (Inr answer, s\<lparr>logger := logger s @ ls\<rparr>)"
  by (simp add: webhook_def)

lemma webhook_Raises:
  "receive py tok req = (Raises e, ls) \<Longrightarrow>
   webhook py tok req now outcome s = (Inl e, s\<lparr>logger := logger s @ ls\<rparr>)"
  by (simp add: webhook_def)

lemma dispatch_enable:
  "event = ''playback_start'' \<or> event = ''playback_resume'' \<Longrightarrow>
   dispatch event n now outcome s =
     ((case outcome of
         Completed out err \<Rightarrow> (Message_executed event out, 200)
       | Raised e \<Rightarrow> (Error_text e, 500)),
      s\<lparr>last_event_time := now, resume_event := True,
        ssh_calls := ssh_calls s @ [(Webhook, Enable)],
        logger := logger s @ [(INFO, Processing_enable event)]\<rparr>)"
  by (auto simp: dispatch_def log_line_def ssh_execute_command_def
      split: ssh_outcome.splits)

lemma dispatch_pause:
  "dispatch ''playback_pause'' n now outcome s =
     (if n \<le> 1
      then ((Message_scheduled ''playback_pause'', 200),
            s\<lparr>last_event_time := now,
              threads := threads s @
                [\<lparr>t_event = ''playback_pause'', t_wan_streams = n, pc = Started\<rparr>],
              logger := logger s @ [(INFO, Triggering_delayed_disable ''playback_pause'' n)]\<rparr>)
      else ((Message_ignored_streams ''playback_pause'' n, 200),
            s\<lparr>last_event_time := now,
              logger := logger s @ [(INFO, Skipping_disable ''playback_pause'' n)]\<rparr>))"
  by (simp add: dispatch_def log_line_def start_thread_def)

lemma dispatch_stop:
  "dispatch ''playback_stop'' n now outcome s =
     (if n < 1
      then ((Message_scheduled ''playback_stop'', 200),
            s\<lparr>last_event_time := now,
              threads := threads s @
                [\<lparr>t_event = ''playback_stop'', t_wan_streams = n, pc = Started\<rparr>],
              logger := logger s @ [(INFO, Triggering_delayed_disable ''playback_stop'' n)]\<rparr>)
      else ((Message_ignored_streams ''playback_stop'' n, 200),
            s\<lparr>last_event_time := now,
              logger := logger s @ [(INFO, Skipping_disable ''playback_stop'' n)]\<rparr>))"
  by (simp add: dispatch_def log_line_def start_thread_def)

lemma dispatch_unknown:
  "event \<noteq> ''playback_start'' \<Longrightarrow> event \<noteq> ''playback_resume'' \<Longrightarrow>
   event \<noteq> ''playback_pause'' \<Longrightarrow> event \<noteq> ''playback_stop'' \<Longrightarrow>
   dispatch event n now outcome s =
     ((Message_ignored event, 200),
      s\<lparr>last_event_time := now, logger := logger s @ [(INFO, Ignoring_unhandled event)]\<rparr>)"
  by (simp add: dispatch_def log_line_def)

lemma receive_example:
  "receive py ''secret'' (example_request event (JInt n)) =
     (Notification (str_lower py event) n,
      [(INFO, Incoming_request (get_json (example_request event (JInt n))) ''Not provided'')])"
  by (simp add: receive_def example_request_def authorized_def dict_get_def)

text \<open>
  The requests that reach line 171 include every request with the right token whose
  body is an object with a string \<^verbatim>\<open>event\<close> and a \<^verbatim>\<open>wan_streams\<close> that \<^verbatim>\<open>int\<close> accepts.
  The event that goes on is the value of \<^verbatim>\<open>str.lower\<close>.
\<close>

lemma receive_notification:
  assumes "authorized tok (x_webhook_token req)" and "get_json req = JObject kvs"
    and "map_of kvs ''event'' = Some (JString ev)"
    and "py_int py (dict_get kvs ''wan_streams'' (JInt 0)) = Inr n"
  shows "fst (receive py tok req) = Notification (str_lower py ev) n"
proof -
  from assms(3) have "kvs \<noteq> []" by auto
  with assms show ?thesis
    by (simp add: receive_def Let_def)
qed

lemma lower_examples:
  "str_lower ascii ''playback_pause'' = ''playback_pause''"
  "str_lower ascii ''playback_stop'' = ''playback_stop''"
  "str_lower ascii ''playback_start'' = ''playback_start''"
  "str_lower ascii ''playback_resume'' = ''playback_resume''"
  "str_lower ascii ''Playback_Resume'' = ''playback_resume''"
  "str_lower ascii ''heartbeat'' = ''heartbeat''"
  by code_simp+

text \<open>
  C3. The hypothesis says that the request passes lines 150--169 and reaches line
  171 with the lower-cased event and the stream count \<open>n\<close>.
  A pause notification starts a delayed-disable thread exactly when the stream
  count is at most 1, a stop notification exactly when it is below 1. In the other
  case nothing is started and the answer says that the event was ignored; either
  answer is given at once, with status 200.
\<close>

theorem pause_stop_gating:
  assumes "receive py tok req = (Notification event n, ls)"
    and "event = ''playback_pause'' \<or> event = ''playback_stop''"
  shows "webhook py tok req now outcome s =
     (if (event = ''playback_pause'' \<and> n \<le> 1) \<or> (event = ''playback_stop'' \<and> n < 1)
      then (Inr (Message_scheduled event, 200),
            s\<lparr>last_event_time := now,
              threads := threads s @ [\<lparr>t_event = event, t_wan_streams = n, pc = Started\<rparr>],
              logger := logger s @ ls @ [(INFO, Triggering_delayed_disable event n)]\<rparr>)
      else (Inr (Message_ignored_streams event n, 200),
            s\<lparr>last_event_time := now,
              logger := logger s @ ls @ [(INFO, Skipping_disable event n)]\<rparr>))"
  using assms(2)
  by (auto simp: webhook_Notification [OF assms(1)] dispatch_pause dispatch_stop)

theorem pause_stop_gating_witness:
  "threads (snd (webhook ascii ''secret'' (example_request ''playback_pause'' (JInt 1)) 5
      (Raised ''down'') (init 0))) =
     [\<lparr>t_event = ''playback_pause'', t_wan_streams = 1, pc = Started\<rparr>]
   \<and> webhook ascii ''secret'' (example_request ''playback_pause'' (JInt 2)) 5 (Raised ''down'') (init 0) =
     (Inr (Message_ignored_streams ''playback_pause'' 2, 200),
      (init 0)\<lparr>last_event_time := 5,
        logger := [(INFO, Incoming_request
                     (get_json (example_request ''playback_pause'' (JInt 2))) ''Not provided''),
                   (INFO, Skipping_disable ''playback_pause'' 2)]\<rparr>)
   \<and> threads (snd (webhook ascii ''secret'' (example_request ''playback_stop'' (JInt 1)) 5
      (Raised ''down'') (init 0))) = []
   \<and> threads (snd (webhook ascii ''secret'' (example_request ''playback_stop'' (JInt 0)) 5
      (Raised ''down'') (init 0))) =
     [\<lparr>t_event = ''playback_stop'', t_wan_streams = 0, pc = Started\<rparr>]"
  using
    pause_stop_gating [OF receive_example [of ascii "''playback_pause''" 1, unfolded lower_examples],
      of 5 "Raised ''down''" "init 0"]
    pause_stop_gating [OF receive_example [of ascii "''playback_pause''" 2, unfolded lower_examples],
      of 5 "Raised ''down''" "init 0"]
    pause_stop_gating [OF receive_example [of ascii "''playback_stop''" 1, unfolded lower_examples],
      of 5 "Raised ''down''" "init 0"]
    pause_stop_gating [OF receive_example [of ascii "''playback_stop''" 0, unfolded lower_examples],
      of 5 "Raised ''down''" "init 0"]
  by (simp add: init_def)

text \<open>
  A request that reaches line 171 with a start or resume event, whatever its stream
  count, sets \<^verbatim>\<open>resume_event\<close> and calls \<^verbatim>\<open>ssh_execute_command\<close> with the enable text
  exactly once; the answer is the success answer (status 200, with the output) when
  the call succeeded and the failure answer (status 500, with the error text) when it
  failed.
\<close>

lemma enable_acknowledged:
  assumes "receive py tok req = (Notification event n, ls)"
    and "event = ''playback_start'' \<or> event = ''playback_resume''"
  shows "webhook py tok req now outcome s =
     (Inr (case outcome of
             Completed out err \<Rightarrow> (Message_executed event out, 200)
           | Raised e \<Rightarrow> (Error_text e, 500)),
      s\<lparr>last_event_time := now, resume_event := True,
        ssh_calls := ssh_calls s @ [(Webhook, Enable)],
        logger := logger s @ ls @ [(INFO, Processing_enable event)]\<rparr>)"
  by (simp add: webhook_Notification [OF assms(1)] dispatch_enable [OF assms(2)])

lemma enable_acknowledged_example:
  "webhook ascii ''secret'' (example_request ''Playback_Resume'' (JInt 3)) 5 (Raised ''down'') (init 0) =
     (Inr (Error_text ''down'', 500),
      \<lparr>last_event_time = 5, resume_event = True, threads = [],
        ssh_calls = [(Webhook, Enable)],
        logger = [(INFO, Incoming_request
                     (get_json (example_request ''Playback_Resume'' (JInt 3))) ''Not provided''),
                  (INFO, Processing_enable ''playback_resume'')]\<rparr>)
   \<and> fst (webhook ascii ''secret'' (example_request ''playback_start'' (JInt 0)) 5
        (Completed ''ok'' []) (init 0)) =
     Inr (Message_executed ''playback_start'' ''ok'', 200)"
  using
    enable_acknowledged [OF receive_example [of ascii "''Playback_Resume''" 3, unfolded lower_examples],
      of 5 "Raised ''down''" "init 0"]
    enable_acknowledged [OF receive_example [of ascii "''playback_start''" 0, unfolded lower_examples],
      of 5 "Completed ''ok'' []" "init 0"]
  by (simp add: init_def)

text \<open>
  Every request that reaches line 171 overwrites \<^verbatim>\<open>last_event_time\<close> with the
  clock reading, whatever the event. \<^verbatim>\<open>resume_event\<close> changes only for a start or
  resume event, where it is set; a thread is started only for a pause event with
  stream count at most 1 or a stop event with stream count below 1; only a start or
  resume event calls \<^verbatim>\<open>ssh_execute_command\<close>. For any other event name the state
  changes in \<^verbatim>\<open>last_event_time\<close> and the log alone, and the answer says that the event
  was ignored.
\<close>

lemma dispatch_frame:
  assumes "receive py tok req = (Notification event n, ls)"
  shows "last_event_time (snd (webhook py tok req now outcome s)) = now
    \<and> resume_event (snd (webhook py tok req now outcome s)) =
        (if event = ''playback_start'' \<or> event = ''playback_resume'' then True
         else resume_event s)
    \<and> threads (snd (webhook py tok req now outcome s)) =
        (if (event = ''playback_pause'' \<and> n \<le> 1) \<or> (event = ''playback_stop'' \<and> n < 1)
         then threads s @ [\<lparr>t_event = event, t_wan_streams = n, pc = Started\<rparr>]
         else threads s)
    \<and> ssh_calls (snd (webhook py tok req now outcome s)) =
        (if event = ''playback_start'' \<or> event = ''playback_resume''
         then ssh_calls s @ [(Webhook, Enable)] else ssh_calls s)
    \<and> (if event \<in> set [''playback_start'', ''playback_resume'', ''playback_pause'',
                         ''playback_stop'']
       then True
       else webhook py tok req now outcome s =
         (Inr (Message_ignored event, 200),
          s\<lparr>last_event_time := now,
            logger := logger s @ ls @ [(INFO, Ignoring_unhandled event)]\<rparr>))"
proof -
  consider (enable) "event = ''playback_start'' \<or> event = ''playback_resume''"
    | (pause) "event = ''playback_pause''"
    | (stop) "event = ''playback_stop''"
    | (unknown) "event \<noteq> ''playback_start''" "event \<noteq> ''playback_resume''"
        "event \<noteq> ''playback_pause''" "event \<noteq> ''playback_stop''"
    by blast
  then show ?thesis
  proof cases
    case enable
    then show ?thesis
      by (auto simp: webhook_Notification [OF assms] dispatch_enable)
  next
    case pause
    then show ?thesis
      by (simp add: webhook_Notification [OF assms] dispatch_pause)
  next
    case stop
    then show ?thesis
      by (simp add: webhook_Notification [OF assms] dispatch_stop)
  next
    case unknown
    then show ?thesis
      by (simp add: webhook_Notification [OF assms] dispatch_unknown)
  qed
qed

lemma dispatch_frame_example:
  "webhook ascii ''secret'' (example_request ''heartbeat'' (JInt 0)) 5 (Raised ''down'') (init 0) =
     (Inr (Message_ignored ''heartbeat'', 200),
      \<lparr>last_event_time = 5, resume_event = False, threads = [], ssh_calls = [],
        logger = [(INFO, Incoming_request
                     (get_json (example_request ''heartbeat'' (JInt 0))) ''Not provided''),
                  (INFO, Ignoring_unhandled ''heartbeat'')]\<rparr>)
   \<and> last_event_time (snd (webhook ascii ''secret'' (example_request ''playback_stop'' (JInt 4)) 5
        (Raised ''down'') (init 0))) = 5"
  using
    dispatch_frame [OF receive_example [of ascii "''heartbeat''" 0, unfolded lower_examples],
      of 5 "Raised ''down''" "init 0"]
    dispatch_frame [OF receive_example [of ascii "''playback_stop''" 4, unfolded lower_examples],
      of 5 "Raised ''down''" "init 0"]
  by (simp add: init_def)

subsection \<open>The inactivity checker\<close>

lemma check_inactivity_idle:
  "total_seconds (current_time - last_event_time s) < 7200 \<Longrightarrow>
   check_inactivity current_time outcome now s =
     s\<lparr>logger := logger s @
         [(INFO, Inactivity_check (total_seconds (current_time - last_event_time s)))]\<rparr>"
  by (simp add: check_inactivity_def log_line_def Let_def)

lemma check_inactivity_fires:
  "7200 \<le> total_seconds (current_time - last_event_time s) \<Longrightarrow>
   check_inactivity current_time outcome now s =
     s\<lparr>last_event_time := now,
       ssh_calls := ssh_calls s @ [(Watchdog, Disable)],
       logger := logger s @
         [(INFO, Inactivity_check (total_seconds (current_time - last_event_time s))),
          (INFO, No_events_for_2_hours),
          (case outcome of
             Completed out err \<Rightarrow> (INFO, Inactivity_disabled)
           | Raised e \<Rightarrow> (ERROR, Inactivity_failed e))]\<rparr>"
  by (simp add: check_inactivity_def log_line_def ssh_execute_command_def Let_def
      split: ssh_outcome.splits)

lemma check_inactivity_calls:
  "ssh_calls (check_inactivity current_time outcome now s) =
     ssh_calls s @
       (if 7200 \<le> total_seconds (current_time - last_event_time s)
        then [(Watchdog, Disable)] else [])"
  by (cases "7200 \<le> total_seconds (current_time - last_event_time s)")
    (simp_all add: check_inactivity_idle check_inactivity_fires)

lemma total_seconds_mono:
  "a \<le> b \<Longrightarrow> total_seconds a \<le> total_seconds b"
  by (simp add: total_seconds_def divide_right_mono)

lemma attempts_after:
  "\<forall>p \<in> set passes. fst p \<le> snd (snd p) \<Longrightarrow> a \<in> set (attempts passes s) \<Longrightarrow>
   7200 \<le> total_seconds (a - last_event_time s)"
proof (induction passes arbitrary: s)
  case Nil
  then show ?case by simp
next
  case (Cons p passes)
  obtain c outcome n where p: "p = (c, outcome, n)"
    by (cases p) auto
  from Cons.prems(1) have cn: "c \<le> n" and rest: "\<forall>p \<in> set passes. fst p \<le> snd (snd p)"
    by (simp_all add: p)
  show ?case
  proof (cases "7200 \<le> total_seconds (c - last_event_time s)")
    case True
    show ?thesis
    proof (cases "a \<in> set (attempts passes (check_inactivity c outcome n s))")
      case True
      with Cons.IH [OF rest] have "7200 \<le> total_seconds (a - n)"
        using \<open>7200 \<le> total_seconds (c - last_event_time s)\<close>
        by (fastforce simp: check_inactivity_fires)
      moreover have "a - n \<le> a - last_event_time s"
      proof -
        have "0 \<le> total_seconds (c - last_event_time s)"
          using \<open>7200 \<le> total_seconds (c - last_event_time s)\<close> by simp
        then have "last_event_time s \<le> c"
          by (simp add: total_seconds_def)
        with cn show ?thesis by simp
      qed
      ultimately show ?thesis
        using total_seconds_mono order_trans by blast
    next
      case False
      with Cons.prems(2) have "a = c"
        by (simp add: p split: if_splits)
      with \<open>7200 \<le> total_seconds (c - last_event_time s)\<close> show ?thesis by simp
    qed
  next
    case False
    then have idle: "total_seconds (c - last_event_time s) < 7200" by simp
    with Cons.prems(2) have "a \<in> set (attempts passes (check_inactivity c outcome n s))"
      by (simp add: p check_inactivity_calls)
    with Cons.IH [OF rest] have
      "7200 \<le> total_seconds (a - last_event_time (check_inactivity c outcome n s))"
      by blast
    then show ?thesis
      by (simp add: check_inactivity_idle [OF idle])
  qed
qed

lemma attempts_apart:
  "\<forall>p \<in> set passes. fst p \<le> snd (snd p) \<Longrightarrow>
   sorted_wrt (\<lambda>a b. 7200 \<le> total_seconds (b - a)) (attempts passes s)"
proof (induction passes arbitrary: s)
  case Nil
  then show ?case by simp
next
  case (Cons p passes)
  obtain c outcome n where p: "p = (c, outcome, n)"
    by (cases p) auto
  from Cons.prems have cn: "c \<le> n" and rest: "\<forall>p \<in> set passes. fst p \<le> snd (snd p)"
    by (simp_all add: p)
  show ?case
  proof (cases "7200 \<le> total_seconds (c - last_event_time s)")
    case True
    have "7200 \<le> total_seconds (b - c)"
      if "b \<in> set (attempts passes (check_inactivity c outcome n s))" for b
    proof -
      from attempts_after [OF rest that] have "7200 \<le> total_seconds (b - n)"
        by (simp add: check_inactivity_fires [OF True])
      moreover from cn have "b - n \<le> b - c" by simp
      ultimately show ?thesis
        using total_seconds_mono order_trans by blast
    qed
    with Cons.IH [OF rest] show ?thesis
      by (simp add: p)
  next
    case False
    with Cons.IH [OF rest] show ?thesis
      by (simp add: p check_inactivity_calls)
  qed
qed

lemma loop_calls:
  "ssh_calls (check_inactivity_loop passes s) =
     ssh_calls s @ replicate (length (attempts passes s)) (Watchdog, Disable)"
proof (induction passes arbitrary: s)
  case Nil
  then show ?case by simp
next
  case (Cons p passes)
  obtain c outcome n where p: "p = (c, outcome, n)"
    by (cases p) auto
  show ?case
    by (simp add: p Cons.IH check_inactivity_calls replicate_app_Cons_same)
qed

text \<open>
  C10. A pass of the inactivity checker that finds less than 7200 seconds elapsed
  since \<^verbatim>\<open>last_event_time\<close> calls nothing and leaves \<^verbatim>\<open>last_event_time\<close> as it is: the
  state changes in the log alone. Whenever a pass changes \<^verbatim>\<open>last_event_time\<close>, it has
  called \<^verbatim>\<open>ssh_execute_command\<close> with the disable text.
\<close>

theorem watchdog_idle_frame:
  "(total_seconds (current_time - last_event_time s) < 7200 \<longrightarrow>
      check_inactivity current_time outcome now s =
        s\<lparr>logger := logger s @
            [(INFO, Inactivity_check (total_seconds (current_time - last_event_time s)))]\<rparr>)
   \<and> (last_event_time (check_inactivity current_time outcome now s) \<noteq> last_event_time s \<longrightarrow>
      ssh_calls (check_inactivity current_time outcome now s) =
        ssh_calls s @ [(Watchdog, Disable)])"
proof (cases "7200 \<le> total_seconds (current_time - last_event_time s)")
  case True
  then show ?thesis
    by (simp add: check_inactivity_fires)
next
  case False
  then show ?thesis
    by (simp add: check_inactivity_idle)
qed

theorem watchdog_idle_frame_witness:
  "total_seconds (7199999999 - last_event_time (init 0)) < 7200
   \<and> check_inactivity 7199999999 (Raised ''down'') 7200000010 (init 0) =
       (init 0)\<lparr>logger := [(INFO, Inactivity_check (7199999999 / 1000000))]\<rparr>
   \<and> last_event_time (check_inactivity 7200000000 (Raised ''down'') 7200000010 (init 0))
       \<noteq> last_event_time (init 0)
   \<and> ssh_calls (check_inactivity 7200000000 (Raised ''down'') 7200000010 (init 0)) =
       [(Watchdog, Disable)]"
proof -
  have idle: "total_seconds (7199999999 - last_event_time (init 0)) < 7200"
    by (simp add: init_def total_seconds_def)
  have moved: "last_event_time (check_inactivity 7200000000 (Raised ''down'') 7200000010 (init 0))
      \<noteq> last_event_time (init 0)"
    by (simp add: check_inactivity_fires init_def total_seconds_def)
  from idle moved
    watchdog_idle_frame [of 7199999999 "init 0" "Raised ''down''" 7200000010]
    watchdog_idle_frame [of 7200000000 "init 0" "Raised ''down''" 7200000010]
  show ?thesis
    by (simp add: init_def total_seconds_def)
qed

text \<open>
  C5. A pass of the inactivity checker calls \<^verbatim>\<open>ssh_execute_command\<close> with the disable
  text exactly when at least 7200 seconds have elapsed since \<^verbatim>\<open>last_event_time\<close>. When
  it calls, \<^verbatim>\<open>last_event_time\<close> becomes the clock reading of line 110, whether the call
  succeeded or failed. So, in a sequence of passes with nothing else running and a
  clock that does not go back during a pass, any two passes that call are at least
  7200 seconds apart, whatever the SSH session does; and a pass that finds 7200
  seconds elapsed since the reset of an earlier calling pass calls again. These
  passes make all the calls of the loop, one each.
\<close>

theorem watchdog_disable:
  "ssh_calls (check_inactivity current_time outcome now s) =
     ssh_calls s @
       (if 7200 \<le> total_seconds (current_time - last_event_time s)
        then [(Watchdog, Disable)] else [])
   \<and> (7200 \<le> total_seconds (current_time - last_event_time s) \<longrightarrow>
        last_event_time (check_inactivity current_time outcome now s) = now)
   \<and> ((\<forall>p \<in> set passes. fst p \<le> snd (snd p)) \<longrightarrow>
        sorted_wrt (\<lambda>a b. 7200 \<le> total_seconds (b - a)) (attempts passes s))
   \<and> (7200 \<le> total_seconds (current_time - last_event_time s)
        \<and> 7200 \<le> total_seconds (current_time' - now) \<longrightarrow>
        ssh_calls (check_inactivity current_time' outcome' now'
           (check_inactivity current_time outcome now s)) =
          ssh_calls s @ [(Watchdog, Disable), (Watchdog, Disable)])
   \<and> ssh_calls (check_inactivity_loop passes s) =
        ssh_calls s @ replicate (length (attempts passes s)) (Watchdog, Disable)"
  by (simp add: check_inactivity_calls check_inactivity_fires attempts_apart loop_calls)

theorem watchdog_disable_witness:
  "ssh_calls (check_inactivity 7200000000 (Raised ''down'') 7200000010 (init 0)) =
     [(Watchdog, Disable)]
   \<and> last_event_time (check_inactivity 7200000000 (Raised ''down'') 7200000010 (init 0)) =
     7200000010
   \<and> attempts
       [(300000000, Raised ''down'', 300000001),
        (7200000000, Raised ''down'', 7200000010),
        (7500000000, Raised ''down'', 7500000001),
        (14400000010, Raised ''down'', 14400000020)] (init 0) = [7200000000, 14400000010]
   \<and> sorted_wrt (\<lambda>a b. 7200 \<le> total_seconds (b - a))
       (attempts
         [(300000000, Raised ''down'', 300000001),
          (7200000000, Raised ''down'', 7200000010),
          (7500000000, Raised ''down'', 7500000001),
          (14400000010, Raised ''down'', 14400000020)] (init 0))
   \<and> ssh_calls (check_inactivity 14400000010 (Raised ''down'') 14400000020
        (check_inactivity 7200000000 (Raised ''down'') 7200000010 (init 0))) =
     [(Watchdog, Disable), (Watchdog, Disable)]
   \<and> ssh_calls (check_inactivity_loop
        [(300000000, Raised ''down'', 300000001),
         (7200000000, Raised ''down'', 7200000010),
         (7500000000, Raised ''down'', 7500000001),
         (14400000010, Raised ''down'', 14400000020)] (init 0)) =
     [(Watchdog, Disable), (Watchdog, Disable)]"
proof -
  let ?passes = "[(300000000, Raised ''down'', 300000001),
        (7200000000, Raised ''down'', 7200000010),
        (7500000000, Raised ''down'', 7500000001),
        (14400000010, Raised ''down'', 14400000020)] :: (datetime \<times> ssh_outcome \<times> datetime) list"
  have a: "attempts ?passes (init 0) = [7200000000, 14400000010]"
    by code_simp
  have e1: "7200 \<le> total_seconds (7200000000 - last_event_time (init 0))"
    by (simp add: init_def total_seconds_def)
  have e2: "7200 \<le> total_seconds (14400000010 - 7200000010)"
    by (simp add: total_seconds_def)
  have m: "\<forall>p \<in> set ?passes. fst p \<le> snd (snd p)"
    by simp
  note w = watchdog_disable [of 7200000000 "Raised ''down''" 7200000010 "init 0" ?passes
      14400000010 "Raised ''down''" 14400000020]
  from w e1 have 1: "ssh_calls (check_inactivity 7200000000 (Raised ''down'') 7200000010 (init 0)) =
     [(Watchdog, Disable)]"
    by (simp add: init_def)
  from w e1 have 2:
    "last_event_time (check_inactivity 7200000000 (Raised ''down'') 7200000010 (init 0)) =
     7200000010"
    by blast
  from w m have 3: "sorted_wrt (\<lambda>a b. 7200 \<le> total_seconds (b - a)) (attempts ?passes (init 0))"
    by blast
  from w e1 e2 have 4: "ssh_calls (check_inactivity 14400000010 (Raised ''down'') 14400000020
        (check_inactivity 7200000000 (Raised ''down'') 7200000010 (init 0))) =
     ssh_calls (init 0) @ [(Watchdog, Disable), (Watchdog, Disable)]"
    by blast
  from w have "ssh_calls (check_inactivity_loop ?passes (init 0)) =
     ssh_calls (init 0) @ replicate (length (attempts ?passes (init 0))) (Watchdog, Disable)"
    by blast
  then have 5: "ssh_calls (check_inactivity_loop ?passes (init 0)) =
     [(Watchdog, Disable), (Watchdog, Disable)]"
    unfolding a by (simp add: init_def)
  from 1 2 a 3 4 5 show ?thesis
    by (simp add: init_def)
qed

subsection \<open>Requests that do not reach line 171\<close>

lemma receive_unauthorized:
  "\<not> authorized tok (x_webhook_token req) \<Longrightarrow>
   receive py tok req = (Rejects (Error_unauthorized, 401), [(WARNING, Unauthorized_access)])"
  by (simp add: receive_def)

lemma authorized_iff:
  "authorized tok auth_token \<longleftrightarrow> tok \<noteq> [] \<and> auth_token = Some tok"
  by (auto simp: authorized_def split: option.splits)

lemma receive_falsy:
  "authorized tok (x_webhook_token req) \<Longrightarrow> \<not> truthy (get_json req) \<Longrightarrow>
   fst (receive py tok req) = Rejects (Error_invalid_request, 400)"
  by (simp add: receive_def Let_def)

lemma receive_no_event:
  "authorized tok (x_webhook_token req) \<Longrightarrow> get_json req = JObject kvs \<Longrightarrow>
   map_of kvs ''event'' = None \<Longrightarrow>
   fst (receive py tok req) = Rejects (Error_invalid_request, 400)"
  by (simp add: receive_def Let_def)

text \<open>
  A request that is answered before line 171, or on which the handler raises, leaves
  \<^verbatim>\<open>last_event_time\<close>, \<^verbatim>\<open>resume_event\<close>, the threads and the recorded calls as they are.
\<close>

lemma not_dispatched_frame:
  assumes "\<forall>event n. fst (receive py tok req) \<noteq> Notification event n"
  shows "\<exists>ls. snd (webhook py tok req now outcome s) = s\<lparr>logger := logger s @ ls\<rparr>"
proof (cases "receive py tok req")
  case (Pair r ls)
  with assms show ?thesis
    by (cases r) (auto simp: webhook_def)
qed

text \<open>
  The stream count of a request whose body is an object with a string \<^verbatim>\<open>event\<close>: an
  absent \<^verbatim>\<open>wan_streams\<close> gives 0 and no warning; a value on which \<^verbatim>\<open>int\<close> raises
  \<^verbatim>\<open>ValueError\<close> or \<^verbatim>\<open>TypeError\<close> gives 0 and the warning of line 168.
\<close>

lemma stream_count_absent:
  assumes "authorized tok (x_webhook_token req)" and "get_json req = JObject kvs"
    and "map_of kvs ''event'' = Some (JString ev)" and "map_of kvs ''wan_streams'' = None"
  shows "fst (receive py tok req) = Notification (str_lower py ev) 0
    \<and> (\<forall>m. (WARNING, m) \<notin> set (snd (receive py tok req)))"
proof -
  from assms(3) have "kvs \<noteq> []" by auto
  with assms show ?thesis
    by (simp add: receive_def Let_def dict_get_def)
qed

lemma stream_count_unparsable:
  assumes "authorized tok (x_webhook_token req)" and "get_json req = JObject kvs"
    and "map_of kvs ''event'' = Some (JString ev)" and "map_of kvs ''wan_streams'' = Some w"
    and "py_int py w = Inl ValueError \<or> py_int py w = Inl TypeError"
  shows "fst (receive py tok req) = Notification (str_lower py ev) 0
    \<and> (WARNING, Invalid_wan_streams w) \<in> set (snd (receive py tok req))"
proof -
  from assms(3) have "kvs \<noteq> []" by auto
  with assms show ?thesis
    by (auto simp: receive_def Let_def dict_get_def)
qed

text \<open>
  C8. The handler at line 159 on the body \<^verbatim>\<open>5\<close>, sent with the right token: the body
  parses, it has no \<^verbatim>\<open>event\<close> field, and \<^verbatim>\<open>'event' not in request_data\<close> raises
  \<^verbatim>\<open>TypeError\<close>. The request is not answered with the validation failure of line 161;
  the shared state is left as it is.
\<close>

theorem scalar_body_raises:
  "webhook py ''secret'' (example_body (JInt 5)) 100 (Completed [] []) (init 0) =
     (Inl TypeError,
      \<lparr>last_event_time = 0, resume_event = False, threads = [], ssh_calls = [],
        logger = [(INFO, Incoming_request (JInt 5) ''Not provided'')]\<rparr>)"
  by (simp add: webhook_def receive_def example_body_def authorized_def init_def)

text \<open>
  C9. The handler at line 166 on a pause request whose \<^verbatim>\<open>wan_streams\<close> is the float
  \<^verbatim>\<open>inf\<close> (the JSON number \<^verbatim>\<open>1e999\<close>): \<^verbatim>\<open>int\<close> raises \<^verbatim>\<open>OverflowError\<close>, which line 167
  does not catch. The handler does not go on with stream count 0: no thread is
  started and \<^verbatim>\<open>last_event_time\<close> keeps its value.
\<close>

theorem infinite_stream_count_raises:
  "webhook py ''secret'' (example_request ''playback_pause'' (JFloat PosInf)) 100
      (Completed [] []) (init 0) =
     (Inl OverflowError,
      \<lparr>last_event_time = 0, resume_event = False, threads = [], ssh_calls = [],
        logger = [(INFO, Incoming_request
                     (get_json (example_request ''playback_pause'' (JFloat PosInf)))
                     ''Not provided'')]\<rparr>)"
  by (simp add: webhook_def receive_def example_request_def authorized_def init_def
      dict_get_def)

text \<open>
  C4. The handler on a start request whose \<^verbatim>\<open>wan_streams\<close> is the float \<^verbatim>\<open>inf\<close>, sent
  with the right token: \<^verbatim>\<open>int\<close> raises \<^verbatim>\<open>OverflowError\<close> at line 166, as for C9, and
  lines 173--191 are not reached. \<^verbatim>\<open>resume_event\<close> is not set and
  \<^verbatim>\<open>ssh_execute_command\<close> is not called with the enable text; the request is answered
  with the exception, not with the outcome of a call.
\<close>

theorem start_with_infinite_stream_count:
  "webhook py ''secret'' (example_request ''playback_start'' (JFloat PosInf)) 100
      (Completed ''ok'' []) (init 0) =
     (Inl OverflowError,
      \<lparr>last_event_time = 0, resume_event = False, threads = [], ssh_calls = [],
        logger = [(INFO, Incoming_request
                     (get_json (example_request ''playback_start'' (JFloat PosInf)))
                     ''Not provided'')]\<rparr>)"
  by (simp add: webhook_def receive_def example_request_def authorized_def init_def
      dict_get_def)

text \<open>
  C7. The handler on two requests that are sent with the right token and pass the
  test of line 159: one with an event of no known kind and the stream count
  \<^verbatim>\<open>-inf\<close>, on which \<^verbatim>\<open>int\<close> raises \<^verbatim>\<open>OverflowError\<close> at line 166 as for C9, and one whose
  \<^verbatim>\<open>event\<close> is the number 5, on which \<^verbatim>\<open>.lower()\<close> raises \<^verbatim>\<open>AttributeError\<close> at line 163.
  Line 171 is not reached: \<^verbatim>\<open>last_event_time\<close> keeps its value, and the request is
  answered with the exception, not as ignored.
\<close>

theorem raising_request_keeps_clock:
  "webhook py ''secret'' (example_request ''heartbeat'' (JFloat NegInf)) 100
      (Completed ''ok'' []) (init 0) =
     (Inl OverflowError,
      \<lparr>last_event_time = 0, resume_event = False, threads = [], ssh_calls = [],
        logger = [(INFO, Incoming_request
                     (get_json (example_request ''heartbeat'' (JFloat NegInf)))
                     ''Not provided'')]\<rparr>)
   \<and> webhook py ''secret'' (example_body (JObject [(''event'', JInt 5)])) 100
      (Completed ''ok'' []) (init 0) =
     (Inl AttributeError,
      \<lparr>last_event_time = 0, resume_event = False, threads = [], ssh_calls = [],
        logger = [(INFO, Incoming_request (JObject [(''event'', JInt 5)])
                     ''Not provided'')]\<rparr>)"
  by (simp add: webhook_def receive_def example_request_def example_body_def authorized_def
      init_def dict_get_def)

subsection \<open>What one action does to the shared state\<close>

lemma dispatch_fields:
  "resume_event (snd (dispatch event n now outcome s)) =
     (if event \<in> set [''playback_start'', ''playback_resume''] then True else resume_event s)
   \<and> (\<exists>ts. threads (snd (dispatch event n now outcome s)) = threads s @ ts)
   \<and> calls_by (Task i) (snd (dispatch event n now outcome s)) = calls_by (Task i) s
   \<and> (\<exists>ls. logger (snd (dispatch event n now outcome s)) = logger s @ ls)"
  by (auto simp: dispatch_def log_line_def start_thread_def ssh_execute_command_def
      calls_by_def Let_def split: ssh_outcome.splits)

lemma webhook_fields:
  "resume_event (snd (webhook py tok req now outcome s)) =
     (if sets_resume_event py tok (Request req now outcome) then True else resume_event s)
   \<and> (\<exists>ts. threads (snd (webhook py tok req now outcome s)) = threads s @ ts)
   \<and> calls_by (Task i) (snd (webhook py tok req now outcome s)) = calls_by (Task i) s
   \<and> (\<exists>ls. logger (snd (webhook py tok req now outcome s)) = logger s @ ls)"
proof (cases "receive py tok req")
  case (Pair r ls)
  show ?thesis
  proof (cases r)
    case (Raises e)
    with Pair show ?thesis
      by (simp add: webhook_Raises calls_by_def)
  next
    case (Rejects answer)
    with Pair show ?thesis
      by (simp add: webhook_Rejects calls_by_def)
  next
    case (Notification event n)
    with Pair have r: "receive py tok req = (Notification event n, ls)" by simp
    have c: "calls_by (Task i) (s\<lparr>logger := logger s @ ls\<rparr>) = calls_by (Task i) s"
      by (simp add: calls_by_def)
    from dispatch_fields [of event n now outcome "s\<lparr>logger := logger s @ ls\<rparr>" i]
    show ?thesis
      by (auto simp: webhook_Notification [OF r] r c)
  qed
qed

lemma check_inactivity_fields:
  "resume_event (check_inactivity current_time outcome now s) = resume_event s
   \<and> threads (check_inactivity current_time outcome now s) = threads s
   \<and> calls_by (Task i) (check_inactivity current_time outcome now s) = calls_by (Task i) s
   \<and> (\<exists>ls. logger (check_inactivity current_time outcome now s) = logger s @ ls)"
  by (cases "7200 \<le> total_seconds (current_time - last_event_time s)")
    (simp_all add: check_inactivity_idle check_inactivity_fires calls_by_def)

lemma delayed_disable_fields:
  "resume_event (delayed_disable j outcome s) =
     (if clears_resume_event (Thread_step j outcome) s then False else resume_event s)
   \<and> length (threads (delayed_disable j outcome s)) = length (threads s)
   \<and> (j \<noteq> i \<longrightarrow> threads (delayed_disable j outcome s) ! i = threads s ! i
        \<and> calls_by (Task i) (delayed_disable j outcome s) = calls_by (Task i) s)
   \<and> (\<exists>ls. logger (delayed_disable j outcome s) = logger s @ ls)"
  by (auto simp: delayed_disable_def set_pc_def log_line_def ssh_execute_command_def
      calls_by_def Let_def split: pc.splits ssh_outcome.splits)

lemma step_resume_event:
  "resume_event (step py tok a s) =
     (if sets_resume_event py tok a then True
      else if clears_resume_event a s then False else resume_event s)"
proof (cases a)
  case (Request req now outcome)
  then show ?thesis
    using webhook_fields [of py tok req now outcome s] by simp
next
  case (Tick current_time outcome now)
  then show ?thesis
    by (simp add: check_inactivity_fields)
next
  case (Thread_step j outcome)
  then show ?thesis
    using delayed_disable_fields [of j outcome s] by simp
qed

lemma step_other:
  assumes "steps_of i [a] = 0" and "i < length (threads s)"
  shows "i < length (threads (step py tok a s))
    \<and> threads (step py tok a s) ! i = threads s ! i
    \<and> calls_by (Task i) (step py tok a s) = calls_by (Task i) s
    \<and> poll i a s = []"
proof (cases a)
  case (Request req now outcome)
  with assms(2) webhook_fields [of py tok req now outcome s i] show ?thesis
    by (auto simp: nth_append)
next
  case (Tick current_time outcome now)
  with assms(2) show ?thesis
    by (simp add: check_inactivity_fields)
next
  case (Thread_step j outcome)
  with assms(1) have "j \<noteq> i"
    by (simp split: if_splits)
  with Thread_step assms(2) delayed_disable_fields [of j outcome s i] show ?thesis
    by simp
qed

lemma step_logger:
  "\<exists>ls. logger (step py tok a s) = logger s @ ls"
proof (cases a)
  case (Request req now outcome)
  then show ?thesis
    using webhook_fields [of py tok req now outcome s] by simp
next
  case (Tick current_time outcome now)
  then show ?thesis
    using check_inactivity_fields [of current_time outcome now s] by simp
next
  case (Thread_step j outcome)
  then show ?thesis
    using delayed_disable_fields [of j outcome s] by simp
qed

lemma run_append:
  "run py tok (as @ bs) s = run py tok bs (run py tok as s)"
  by (induction as arbitrary: s) simp_all

lemma polls_append:
  "polls py tok i (as @ bs) s = polls py tok i as s @ polls py tok i bs (run py tok as s)"
  by (induction as arbitrary: s) simp_all

lemma steps_of_append:
  "steps_of i (as @ bs) = steps_of i as + steps_of i bs"
  by (induction i as rule: steps_of.induct) simp_all

subsection \<open>One delayed-disable thread in a run\<close>

lemma delayed_inv_own_step:
  assumes "delayed_inv i c0 n obs s"
  shows "delayed_inv i c0 (n + 1) (obs @ poll i (Thread_step i outcome) s)
           (delayed_disable i outcome s)"
proof (cases "pc (threads s ! i)")
  case Started
  with assms show ?thesis
    by (auto simp: delayed_inv_def delayed_disable_def set_pc_def log_line_def calls_by_def)
next
  case (Loop_test k)
  with assms show ?thesis
    by (auto simp: delayed_inv_def delayed_disable_def set_pc_def log_line_def calls_by_def
        ssh_execute_command_def Let_def replicate_append_same
        split: ssh_outcome.splits)
next
  case (Sleeping k)
  with assms show ?thesis
    by (auto simp: delayed_inv_def delayed_disable_def set_pc_def calls_by_def)
next
  case Cancelled
  with assms show ?thesis
    by (auto simp: delayed_inv_def delayed_disable_def)
next
  case Expired
  with assms show ?thesis
    by (auto simp: delayed_inv_def delayed_disable_def)
qed

lemma delayed_inv_step:
  assumes "delayed_inv i c0 n obs s"
  shows "delayed_inv i c0 (n + steps_of i [a]) (obs @ poll i a s) (step py tok a s)"
proof (cases "steps_of i [a] = 0")
  case True
  from assms have i: "i < length (threads s)"
    by (simp add: delayed_inv_def)
  from step_other [OF True i, where py = py and tok = tok] assms True show ?thesis
    by (auto simp: delayed_inv_def split: pc.splits)
next
  case False
  then obtain outcome where a: "a = Thread_step i outcome"
    by (cases a) (auto split: if_splits)
  with delayed_inv_own_step [OF assms, of outcome] show ?thesis
    by simp
qed

lemma delayed_inv_run:
  assumes "i < length (threads s)" and "pc (threads s ! i) = Started"
  shows "delayed_inv i (calls_by (Task i) s) (steps_of i acts) (polls py tok i acts s)
           (run py tok acts s)"
proof (induction acts rule: rev_induct)
  case Nil
  from assms show ?case
    by (simp add: delayed_inv_def)
next
  case (snoc a acts)
  from delayed_inv_step [OF snoc.IH, where a = a and py = py and tok = tok] show ?case
    by (simp add: run_append polls_append steps_of_append)
qed

lemma thread_log_append:
  "thread_log py tok i (as @ bs) s =
     thread_log py tok i as s @ thread_log py tok i bs (run py tok as s)"
  by (induction as arbitrary: s) simp_all

lemma call_outcomes_append:
  "call_outcomes py tok i (as @ bs) s =
     call_outcomes py tok i as s @ call_outcomes py tok i bs (run py tok as s)"
  by (induction as arbitrary: s) simp_all

lemma observers_other:
  "steps_of i [a] = 0 \<Longrightarrow> own_lines i a s = [] \<and> call_outcome i a s = []"
  by (cases a) (auto split: if_splits)

lemma logged_inv_own_step:
  assumes "logged_inv i ev ws lg0 tlog outs s"
  shows "logged_inv i ev ws lg0 (tlog @ own_lines i (Thread_step i outcome) s)
           (outs @ call_outcome i (Thread_step i outcome) s) (delayed_disable i outcome s)"
proof (cases "pc (threads s ! i)")
  case Started
  with assms show ?thesis
    by (auto simp: logged_inv_def delayed_disable_def set_pc_def log_line_def)
next
  case (Loop_test k)
  with assms show ?thesis
    by (auto simp: logged_inv_def delayed_disable_def set_pc_def log_line_def
        ssh_execute_command_def Let_def outcome_line_def
        split: ssh_outcome.splits)
next
  case (Sleeping k)
  with assms show ?thesis
    by (auto simp: logged_inv_def delayed_disable_def set_pc_def)
next
  case Cancelled
  with assms show ?thesis
    by (auto simp: logged_inv_def delayed_disable_def)
next
  case Expired
  with assms show ?thesis
    by (auto simp: logged_inv_def delayed_disable_def)
qed

lemma logged_inv_step:
  assumes "logged_inv i ev ws lg0 tlog outs s"
  shows "logged_inv i ev ws lg0 (tlog @ own_lines i a s) (outs @ call_outcome i a s)
           (step py tok a s)"
proof (cases "steps_of i [a] = 0")
  case True
  from assms have i: "i < length (threads s)"
    by (simp add: logged_inv_def)
  from step_logger [of py tok a s] obtain ls' where ls': "logger (step py tok a s) = logger s @ ls'"
    by blast
  from assms obtain ls where ls: "logger s = lg0 @ ls" "set tlog \<subseteq> set ls"
    by (auto simp: logged_inv_def)
  from ls ls' have "logger (step py tok a s) = lg0 @ (ls @ ls') \<and> set tlog \<subseteq> set (ls @ ls')"
    by auto
  then have "\<exists>ls. logger (step py tok a s) = lg0 @ ls \<and> set tlog \<subseteq> set ls"
    by blast
  with step_other [OF True i, where py = py and tok = tok] observers_other [OF True, of s] assms
  show ?thesis
    by (auto simp: logged_inv_def split: pc.splits)
next
  case False
  then obtain outcome where a: "a = Thread_step i outcome"
    by (cases a) (auto split: if_splits)
  with logged_inv_own_step [OF assms, of outcome] show ?thesis
    by simp
qed

lemma logged_inv_run:
  assumes "i < length (threads s)" and "pc (threads s ! i) = Started"
  shows "logged_inv i (t_event (threads s ! i)) (t_wan_streams (threads s ! i)) (logger s)
           (thread_log py tok i acts s) (call_outcomes py tok i acts s) (run py tok acts s)"
proof (induction acts rule: rev_induct)
  case Nil
  from assms show ?case
    by (simp add: logged_inv_def)
next
  case (snoc a acts)
  from logged_inv_step [OF snoc.IH, where a = a and py = py and tok = tok] show ?case
    by (simp add: run_append thread_log_append call_outcomes_append)
qed

text \<open>
  C2. A delayed-disable thread, from its start, in any run of the process: it reads
  \<^verbatim>\<open>resume_event.is_set()\<close> at most 120 times, once before each one-second sleep, so
  that at the loop test the number of values read is the number of seconds slept, at
  most 120. It is cancelled exactly on reading a set value, and then it has not
  called \<^verbatim>\<open>ssh_execute_command\<close> and has logged the cancellation. It expires after
  reading 120 unset values, and then it has called \<^verbatim>\<open>ssh_execute_command\<close> with the
  disable text exactly once and has logged, after the line of its start, that it
  executes the disable and then what the SSH session of that call did: success when
  the session completed, the failure with its text when it raised. The lines it
  wrote are in the log. Scheduled 242 times (the first step, 120 loop tests and
  sleeps, and the step that leaves the loop), it has returned.
\<close>

theorem delayed_disable_course:
  assumes "i < length (threads s)" and "pc (threads s ! i) = Started"
  shows "i < length (threads (run py tok acts s))
    \<and> length (polls py tok i acts s) \<le> 120
    \<and> (case pc (threads (run py tok acts s) ! i) of
         Started \<Rightarrow>
           polls py tok i acts s = [] \<and>
           calls_by (Task i) (run py tok acts s) = calls_by (Task i) s
       | Loop_test elapsed \<Rightarrow>
           elapsed \<le> 120 \<and> polls py tok i acts s = replicate elapsed False \<and>
           calls_by (Task i) (run py tok acts s) = calls_by (Task i) s
       | Sleeping elapsed \<Rightarrow>
           elapsed < 120 \<and> polls py tok i acts s = replicate (elapsed + 1) False \<and>
           calls_by (Task i) (run py tok acts s) = calls_by (Task i) s
       | Cancelled \<Rightarrow>
           (\<exists>k < 120. polls py tok i acts s = replicate k False @ [True]) \<and>
           calls_by (Task i) (run py tok acts s) = calls_by (Task i) s \<and>
           call_outcomes py tok i acts s = [] \<and>
           thread_log py tok i acts s =
             [(INFO, Starting_delay (t_event (threads s ! i)) (t_wan_streams (threads s ! i))),
              (INFO, Cancelled_by_resume (t_event (threads s ! i)))]
       | Expired \<Rightarrow>
           polls py tok i acts s = replicate 120 False \<and>
           calls_by (Task i) (run py tok acts s) = calls_by (Task i) s @ [(Task i, Disable)] \<and>
           (\<exists>outcome. call_outcomes py tok i acts s = [outcome] \<and>
              thread_log py tok i acts s =
                [(INFO, Starting_delay (t_event (threads s ! i)) (t_wan_streams (threads s ! i))),
                 (INFO, Executing_disable (t_event (threads s ! i))),
                 (case outcome of
                    Completed out err \<Rightarrow>
                      (INFO, Delayed_disable_completed (t_event (threads s ! i)))
                  | Raised e \<Rightarrow>
                      (ERROR, Delayed_disable_failed (t_event (threads s ! i)) e))]))
    \<and> (\<exists>ls. logger (run py tok acts s) = logger s @ ls \<and>
           set (thread_log py tok i acts s) \<subseteq> set ls)
    \<and> (242 \<le> steps_of i acts \<longrightarrow>
         pc (threads (run py tok acts s) ! i) = Cancelled \<or>
         pc (threads (run py tok acts s) ! i) = Expired)"
  using delayed_inv_run [OF assms, where py = py and tok = tok and acts = acts]
    logged_inv_run [OF assms, where py = py and tok = tok and acts = acts]
  unfolding delayed_inv_def logged_inv_def delay_seconds_def outcome_line_def
  by (cases "pc (threads (run py tok acts s) ! i)") auto

theorem delayed_disable_course_witness:
  "pc (threads (step ascii ''secret'' (pause_action 5) (init 0)) ! 0) = Started
   \<and> pc (threads (run ascii ''secret'' (replicate 242 (thread_action 0))
         (step ascii ''secret'' (pause_action 5) (init 0))) ! 0) = Expired
   \<and> polls ascii ''secret'' 0 (replicate 242 (thread_action 0))
         (step ascii ''secret'' (pause_action 5) (init 0)) = replicate 120 False
   \<and> calls_by (Task 0) (run ascii ''secret'' (replicate 242 (thread_action 0))
         (step ascii ''secret'' (pause_action 5) (init 0))) = [(Task 0, Disable)]
   \<and> thread_log ascii ''secret'' 0 (replicate 242 (thread_action 0))
         (step ascii ''secret'' (pause_action 5) (init 0)) =
       [(INFO, Starting_delay ''playback_pause'' 0),
        (INFO, Executing_disable ''playback_pause''),
        (ERROR, Delayed_disable_failed ''playback_pause'' ''down'')]
   \<and> thread_log ascii ''secret'' 0
         (replicate 241 (thread_action 0) @ [Thread_step 0 (Completed ''ok'' [])])
         (step ascii ''secret'' (pause_action 5) (init 0)) =
       [(INFO, Starting_delay ''playback_pause'' 0),
        (INFO, Executing_disable ''playback_pause''),
        (INFO, Delayed_disable_completed ''playback_pause'')]
   \<and> pc (threads (run ascii ''secret''
         [thread_action 0, thread_action 0, thread_action 0, resume_action 60, thread_action 0]
         (step ascii ''secret'' (pause_action 5) (init 0))) ! 0) = Cancelled
   \<and> calls_by (Task 0) (run ascii ''secret''
         [thread_action 0, thread_action 0, thread_action 0, resume_action 60, thread_action 0]
         (step ascii ''secret'' (pause_action 5) (init 0))) = []
   \<and> thread_log ascii ''secret'' 0
         [thread_action 0, thread_action 0, thread_action 0, resume_action 60, thread_action 0]
         (step ascii ''secret'' (pause_action 5) (init 0)) =
       [(INFO, Starting_delay ''playback_pause'' 0),
        (INFO, Cancelled_by_resume ''playback_pause'')]"
proof -
  let ?s = "step ascii ''secret'' (pause_action 5) (init 0)"
  let ?long = "replicate 242 (thread_action 0)"
  let ?good = "replicate 241 (thread_action 0) @ [Thread_step 0 (Completed ''ok'' [])]"
  let ?short = "[thread_action 0, thread_action 0, thread_action 0, resume_action 60,
    thread_action 0]"
  have len: "0 < length (threads ?s)"
    by code_simp
  have started: "pc (threads ?s ! 0) = Started"
    by code_simp
  have thread: "t_event (threads ?s ! 0) = ''playback_pause''" "t_wan_streams (threads ?s ! 0) = 0"
    by code_simp+
  have calls: "calls_by (Task 0) ?s = []"
    by code_simp
  have expired: "pc (threads (run ascii ''secret'' ?long ?s) ! 0) = Expired"
    by code_simp
  have failed: "call_outcomes ascii ''secret'' 0 ?long ?s = [Raised ''down'']"
    by code_simp
  have expired': "pc (threads (run ascii ''secret'' ?good ?s) ! 0) = Expired"
    by code_simp
  have completed: "call_outcomes ascii ''secret'' 0 ?good ?s = [Completed ''ok'' []]"
    by code_simp
  have cancelled: "pc (threads (run ascii ''secret'' ?short ?s) ! 0) = Cancelled"
    by code_simp
  from delayed_disable_course [OF len started, of ascii "''secret''" ?long] expired calls
    failed thread
  have 1: "polls ascii ''secret'' 0 ?long ?s = replicate 120 False"
    and 2: "calls_by (Task 0) (run ascii ''secret'' ?long ?s) = [(Task 0, Disable)]"
    and 3: "thread_log ascii ''secret'' 0 ?long ?s =
       [(INFO, Starting_delay ''playback_pause'' 0),
        (INFO, Executing_disable ''playback_pause''),
        (ERROR, Delayed_disable_failed ''playback_pause'' ''down'')]"
    by simp_all
  from delayed_disable_course [OF len started, of ascii "''secret''" ?good] expired'
    completed thread
  have 4: "thread_log ascii ''secret'' 0 ?good ?s =
       [(INFO, Starting_delay ''playback_pause'' 0),
        (INFO, Executing_disable ''playback_pause''),
        (INFO, Delayed_disable_completed ''playback_pause'')]"
    by simp
  from delayed_disable_course [OF len started, of ascii "''secret''" ?short] cancelled calls
    thread
  have 5: "calls_by (Task 0) (run ascii ''secret'' ?short ?s) = []"
    and 6: "thread_log ascii ''secret'' 0 ?short ?s =
       [(INFO, Starting_delay ''playback_pause'' 0),
        (INFO, Cancelled_by_resume ''playback_pause'')]"
    by simp_all
  from started expired 1 2 3 4 cancelled 5 6 show ?thesis
    by blast
qed

lemma step_length:
  assumes "i < length (threads s)"
  shows "i < length (threads (step py tok a s))"
proof (cases a)
  case (Request req now outcome)
  from webhook_fields [of py tok req now outcome s i] obtain ts
    where "threads (snd (webhook py tok req now outcome s)) = threads s @ ts"
    by blast
  with assms Request show ?thesis
    by simp
next
  case (Tick current_time outcome now)
  with assms show ?thesis
    by (simp add: check_inactivity_fields)
next
  case (Thread_step j outcome)
  with assms delayed_disable_fields [of j outcome s i] show ?thesis
    by simp
qed

lemma poll_values:
  "poll i a s = [] \<or> poll i a s = [resume_event s] \<and> pc (threads s ! i) \<noteq> Started"
  by (cases a) (auto split: pc.splits)

lemma polls_unset:
  assumes "\<forall>a \<in> set acts. \<not> sets_resume_event py tok a"
    and "i < length (threads s)"
    and "pc (threads s ! i) = Started \<or> \<not> resume_event s"
  shows "True \<notin> set (polls py tok i acts s)"
  using assms
proof (induction acts arbitrary: s)
  case Nil
  then show ?case by simp
next
  case (Cons a acts)
  from Cons.prems(1) have a: "\<not> sets_resume_event py tok a"
    and rest: "\<forall>a \<in> set acts. \<not> sets_resume_event py tok a"
    by simp_all
  from Cons.prems(3) poll_values [of i a s] have here: "True \<notin> set (poll i a s)"
    by auto
  have len: "i < length (threads (step py tok a s))"
    using Cons.prems(2) by (rule step_length)
  have inv: "pc (threads (step py tok a s) ! i) = Started \<or> \<not> resume_event (step py tok a s)"
  proof (cases "resume_event s")
    case False
    with a show ?thesis
      by (simp add: step_resume_event)
  next
    case True
    with Cons.prems(3) have st: "pc (threads s ! i) = Started" by simp
    show ?thesis
    proof (cases "steps_of i [a] = 0")
      case True
      from step_other [OF True Cons.prems(2), where py = py and tok = tok] st show ?thesis
        by simp
    next
      case False
      then obtain outcome where "a = Thread_step i outcome"
        by (cases a) (auto split: if_splits)
      with st Cons.prems(2) delayed_disable_fields [of i outcome s i] show ?thesis
        by simp
    qed
  qed
  from Cons.IH [OF rest len inv] here show ?case
    by simp
qed

lemma expires_without_set:
  assumes "i < length (threads s)" and "pc (threads s ! i) = Started"
    and "\<forall>a \<in> set acts. \<not> sets_resume_event py tok a"
    and "242 \<le> steps_of i acts"
  shows "pc (threads (run py tok acts s) ! i) = Expired
    \<and> polls py tok i acts s = replicate 120 False
    \<and> calls_by (Task i) (run py tok acts s) = calls_by (Task i) s @ [(Task i, Disable)]"
proof -
  from polls_unset [OF assms(3) assms(1)] assms(2)
  have "True \<notin> set (polls py tok i acts s)"
    by simp
  with delayed_inv_run [OF assms(1) assms(2), where py = py and tok = tok and acts = acts] assms(4)
  show ?thesis
    unfolding delayed_inv_def delay_seconds_def
    by (cases "pc (threads (run py tok acts s) ! i)") auto
qed

lemma spawned_thread:
  assumes "receive py tok req = (Notification event n, ls)"
    and "(event = ''playback_pause'' \<and> n \<le> 1) \<or> (event = ''playback_stop'' \<and> n < 1)"
  shows "threads (step py tok (Request req now outcome) s) =
     threads s @ [\<lparr>t_event = event, t_wan_streams = n, pc = Started\<rparr>]"
  using assms(2)
  by (auto simp: webhook_Notification [OF assms(1)] dispatch_pause dispatch_stop)

lemma enable_sets:
  assumes "receive py tok req = (Notification event n, ls)"
    and "event = ''playback_start'' \<or> event = ''playback_resume''"
  shows "resume_event (step py tok (Request req now outcome) s)
    \<and> threads (step py tok (Request req now outcome) s) = threads s
    \<and> calls_by (Task i) (step py tok (Request req now outcome) s) = calls_by (Task i) s"
  using assms(2)
  by (auto simp: webhook_Notification [OF assms(1)] dispatch_enable calls_by_def)

text \<open>
  C6. The first step of every delayed-disable thread clears \<^verbatim>\<open>resume_event\<close>. So when
  a start or resume request has been handled (and has set \<^verbatim>\<open>resume_event\<close>) before a
  pause or stop request starts a thread, and no start or resume request is handled
  afterwards, the new thread reads 120 unset values and, once it has been scheduled
  through its 120 sleeps, calls \<^verbatim>\<open>ssh_execute_command\<close> with the disable text. The clear
  is seen by the other threads too: an older thread at its loop test, which would
  have been cancelled by the set \<^verbatim>\<open>resume_event\<close>, goes on to sleep when the new thread
  takes its first step before it.
\<close>

theorem clear_on_thread_start:
  "(i < length (threads s) \<and> pc (threads s ! i) = Started \<longrightarrow>
      \<not> resume_event (delayed_disable i outcome s) \<and>
      pc (threads (delayed_disable i outcome s) ! i) = Loop_test 0)
   \<and> (receive py tok req\<^sub>e = (Notification event\<^sub>e n\<^sub>e, ls\<^sub>e) \<and>
      (event\<^sub>e = ''playback_start'' \<or> event\<^sub>e = ''playback_resume'') \<and>
      receive py tok req = (Notification event n, ls) \<and>
      ((event = ''playback_pause'' \<and> n \<le> 1) \<or> (event = ''playback_stop'' \<and> n < 1)) \<and>
      (\<forall>a \<in> set acts. \<not> sets_resume_event py tok a) \<and>
      242 \<le> steps_of (length (threads s)) acts \<longrightarrow>
        resume_event (step py tok (Request req\<^sub>e now\<^sub>e outcome\<^sub>e) s) \<and>
        pc (threads (run py tok acts (step py tok (Request req now outcome')
              (step py tok (Request req\<^sub>e now\<^sub>e outcome\<^sub>e) s))) ! length (threads s)) = Expired \<and>
        polls py tok (length (threads s)) acts (step py tok (Request req now outcome')
              (step py tok (Request req\<^sub>e now\<^sub>e outcome\<^sub>e) s)) = replicate 120 False \<and>
        calls_by (Task (length (threads s))) (run py tok acts (step py tok (Request req now outcome')
              (step py tok (Request req\<^sub>e now\<^sub>e outcome\<^sub>e) s))) =
          calls_by (Task (length (threads s))) s @ [(Task (length (threads s)), Disable)])
   \<and> (resume_event s \<and> i < length (threads s) \<and> pc (threads s ! i) = Started \<and>
      j < length (threads s) \<and> j \<noteq> i \<and> pc (threads s ! j) = Loop_test k \<and> k < 120 \<longrightarrow>
        pc (threads (delayed_disable j outcome'' s) ! j) = Cancelled \<and>
        pc (threads (delayed_disable j outcome'' (delayed_disable i outcome s)) ! j) = Sleeping k)"
proof (intro conjI impI)
  assume "i < length (threads s) \<and> pc (threads s ! i) = Started"
  then show "\<not> resume_event (delayed_disable i outcome s)"
    and "pc (threads (delayed_disable i outcome s) ! i) = Loop_test 0"
    by (simp_all add: delayed_disable_def set_pc_def log_line_def)
next
  assume h: "receive py tok req\<^sub>e = (Notification event\<^sub>e n\<^sub>e, ls\<^sub>e) \<and>
      (event\<^sub>e = ''playback_start'' \<or> event\<^sub>e = ''playback_resume'') \<and>
      receive py tok req = (Notification event n, ls) \<and>
      ((event = ''playback_pause'' \<and> n \<le> 1) \<or> (event = ''playback_stop'' \<and> n < 1)) \<and>
      (\<forall>a \<in> set acts. \<not> sets_resume_event py tok a) \<and>
      242 \<le> steps_of (length (threads s)) acts"
  let ?i = "length (threads s)"
  let ?s1 = "step py tok (Request req\<^sub>e now\<^sub>e outcome\<^sub>e) s"
  let ?s2 = "step py tok (Request req now outcome') ?s1"
  from h have e: "receive py tok req\<^sub>e = (Notification event\<^sub>e n\<^sub>e, ls\<^sub>e)"
    and ee: "event\<^sub>e = ''playback_start'' \<or> event\<^sub>e = ''playback_resume''"
    and p: "receive py tok req = (Notification event n, ls)"
    and pp: "(event = ''playback_pause'' \<and> n \<le> 1) \<or> (event = ''playback_stop'' \<and> n < 1)"
    and quiet: "\<forall>a \<in> set acts. \<not> sets_resume_event py tok a"
    and steps: "242 \<le> steps_of ?i acts"
    by blast+
  note s1 = enable_sets [OF e ee, of now\<^sub>e outcome\<^sub>e s ?i]
  note s2 = spawned_thread [OF p pp, of now outcome' ?s1]
  from s1 show "resume_event ?s1" by simp
  from s1 s2 have len: "?i < length (threads ?s2)" and st: "pc (threads ?s2 ! ?i) = Started"
    by simp_all
  have "calls_by (Task ?i) ?s2 = calls_by (Task ?i) ?s1"
    using webhook_fields [of py tok req now outcome' ?s1 ?i] by simp
  with s1 have c: "calls_by (Task ?i) ?s2 = calls_by (Task ?i) s"
    by simp
  note x = expires_without_set [OF len st quiet steps]
  from x show "pc (threads (run py tok acts ?s2) ! ?i) = Expired"
    by simp
  from x show "polls py tok ?i acts ?s2 = replicate 120 False"
    by simp
  from x c show "calls_by (Task ?i) (run py tok acts ?s2) =
      calls_by (Task ?i) s @ [(Task ?i, Disable)]"
    by simp
next
  assume h: "resume_event s \<and> i < length (threads s) \<and> pc (threads s ! i) = Started \<and>
      j < length (threads s) \<and> j \<noteq> i \<and> pc (threads s ! j) = Loop_test k \<and> k < 120"
  then show "pc (threads (delayed_disable j outcome'' s) ! j) = Cancelled"
    by (simp add: delayed_disable_def set_pc_def log_line_def delay_seconds_def)
  from h delayed_disable_fields [of i outcome s j]
  show "pc (threads (delayed_disable j outcome'' (delayed_disable i outcome s)) ! j) = Sleeping k"
    by (simp add: delayed_disable_def [of j] set_pc_def delay_seconds_def)
qed

theorem clear_on_thread_start_witness:
  "resume_event (run ascii ''secret'' [pause_action 5, thread_action 0, resume_action 60, pause_action 70] (init 0))
   \<and> pc (threads (run ascii ''secret'' [pause_action 5, thread_action 0, resume_action 60, pause_action 70]
        (init 0)) ! 1) = Started
   \<and> pc (threads (run ascii ''secret'' [pause_action 5, thread_action 0, resume_action 60, pause_action 70]
        (init 0)) ! 0) = Loop_test 0
   \<and> \<not> resume_event (delayed_disable 1 (Raised ''down'')
        (run ascii ''secret'' [pause_action 5, thread_action 0, resume_action 60, pause_action 70] (init 0)))
   \<and> pc (threads (delayed_disable 0 (Raised ''down'')
        (run ascii ''secret'' [pause_action 5, thread_action 0, resume_action 60, pause_action 70] (init 0))) ! 0)
       = Cancelled
   \<and> pc (threads (delayed_disable 0 (Raised ''down'') (delayed_disable 1 (Raised ''down'')
        (run ascii ''secret'' [pause_action 5, thread_action 0, resume_action 60, pause_action 70] (init 0)))) ! 0)
       = Sleeping 0
   \<and> resume_event (step ascii ''secret'' (resume_action 60) (init 0))
   \<and> pc (threads (run ascii ''secret'' (replicate 242 (thread_action 0))
        (step ascii ''secret'' (pause_action 70) (step ascii ''secret'' (resume_action 60) (init 0)))) ! 0) = Expired
   \<and> calls_by (Task 0) (run ascii ''secret'' (replicate 242 (thread_action 0))
        (step ascii ''secret'' (pause_action 70) (step ascii ''secret'' (resume_action 60) (init 0)))) = [(Task 0, Disable)]"
proof -
  let ?s = "run ascii ''secret'' [pause_action 5, thread_action 0, resume_action 60, pause_action 70] (init 0)"
  let ?acts = "replicate 242 (thread_action 0)"
  have set: "resume_event ?s"
    by code_simp
  have new: "1 < length (threads ?s)" "pc (threads ?s ! 1) = Started"
    by code_simp+
  have old: "0 < length (threads ?s)" "pc (threads ?s ! 0) = Loop_test 0"
    by code_simp+
  note t = clear_on_thread_start [where i = 1 and s = ?s and outcome = "Raised ''down''"
      and j = 0 and k = 0 and outcome'' = "Raised ''down''"]
  from t new have a: "\<not> resume_event (delayed_disable 1 (Raised ''down'') ?s)"
    by blast
  have "(0::nat) \<noteq> 1" "(0::nat) < 120"
    by simp_all
  with t set new old
  have c: "pc (threads (delayed_disable 0 (Raised ''down'') ?s) ! 0) = Cancelled
    \<and> pc (threads (delayed_disable 0 (Raised ''down'')
          (delayed_disable 1 (Raised ''down'') ?s)) ! 0) = Sleeping 0"
    by blast
  have quiet: "\<forall>a \<in> set ?acts. \<not> sets_resume_event ascii ''secret'' a"
    by (simp add: thread_action_def)
  have steps: "242 \<le> steps_of (length (threads (init 0))) ?acts"
    by code_simp
  have len: "length (threads (init 0)) = 0" and calls: "calls_by (Task 0) (init 0) = []"
    by (simp_all add: init_def calls_by_def)
  note r = receive_example [of ascii "''playback_resume''" 0, unfolded lower_examples]
  note p = receive_example [of ascii "''playback_pause''" 0, unfolded lower_examples]
  note u = clear_on_thread_start [where s = "init 0" and py = ascii and tok = "''secret''"
      and req\<^sub>e = "example_request ''playback_resume'' (JInt 0)"
      and event\<^sub>e = "''playback_resume''" and n\<^sub>e = 0
      and now\<^sub>e = 60 and outcome\<^sub>e = "Completed ''ok'' []"
      and req = "example_request ''playback_pause'' (JInt 0)"
      and event = "''playback_pause''" and n = 0
      and now = 70 and outcome' = "Raised ''down''" and acts = ?acts]
  from u r p quiet steps
  have b: "resume_event (step ascii ''secret'' (resume_action 60) (init 0))
    \<and> pc (threads (run ascii ''secret'' ?acts
        (step ascii ''secret'' (pause_action 70) (step ascii ''secret'' (resume_action 60) (init 0)))) ! 0) = Expired
    \<and> calls_by (Task 0) (run ascii ''secret'' ?acts
        (step ascii ''secret'' (pause_action 70) (step ascii ''secret'' (resume_action 60) (init 0)))) =
       [(Task 0, Disable)]"
    unfolding len calls pause_action_def resume_action_def
    by simp
  from set new old a c b show ?thesis
    by blast
qed

subsection \<open>Threads waiting when \<^verbatim>\<open>resume_event\<close> is set\<close>

lemma steps_of_Cons:
  "steps_of i (a # as) = steps_of i [a] + steps_of i as"
  by (cases a) simp_all

lemma cancel_inv_step:
  assumes "cancel_inv i c0 n s" and "\<not> clears_resume_event a s"
  shows "cancel_inv i c0 (n + steps_of i [a]) (step py tok a s)"
proof (cases "steps_of i [a] = 0")
  case True
  from assms(1) have i: "i < length (threads s)"
    by (simp add: cancel_inv_def)
  from assms have "resume_event (step py tok a s)"
    by (simp add: step_resume_event cancel_inv_def)
  with step_other [OF True i, where py = py and tok = tok] assms(1) True show ?thesis
    by (simp add: cancel_inv_def)
next
  case False
  then obtain outcome where a: "a = Thread_step i outcome"
    by (cases a) (auto split: if_splits)
  from assms(1) show ?thesis
    unfolding a cancel_inv_def
    by (auto simp: delayed_disable_def set_pc_def log_line_def calls_by_def
        split: pc.splits)
qed

lemma cancel_inv_run:
  assumes "cancel_inv i c0 n s" and "no_clear py tok acts s"
  shows "cancel_inv i c0 (n + steps_of i acts) (run py tok acts s)"
  using assms
proof (induction acts arbitrary: n s)
  case Nil
  then show ?case by simp
next
  case (Cons a acts)
  from Cons.prems(2) have a: "\<not> clears_resume_event a s"
    and rest: "no_clear py tok acts (step py tok a s)"
    by simp_all
  from Cons.IH [OF cancel_inv_step [OF Cons.prems(1) a] rest] show ?case
    by (simp add: steps_of_Cons [of i a acts] add.assoc)
qed

text \<open>
  C1. Two runs in which a thread is waiting when a resume request is handled and
  sets \<^verbatim>\<open>resume_event\<close>, and the thread calls \<^verbatim>\<open>ssh_execute_command\<close> with the disable
  text all the same.
  \<^item> Thread 0 is in its first sleep; after the resume request a pause request starts
    thread 1, whose first step clears \<^verbatim>\<open>resume_event\<close> (line 115) before thread 0
    looks at it; thread 0 goes through its 120 sleeps and calls.
  \<^item> Thread 0 is in its last sleep; the loop is left at line 120 without another
    look at \<^verbatim>\<open>resume_event\<close>, and thread 0 calls.
\<close>

theorem cancellation_lost:
  "pc (threads (run ascii ''secret'' [pause_action 5, thread_action 0, thread_action 0]
        (init 0)) ! 0) = Sleeping 0
   \<and> resume_event (run ascii ''secret''
        [pause_action 5, thread_action 0, thread_action 0, resume_action 60] (init 0))
   \<and> calls_by (Task 0) (run ascii ''secret''
        [pause_action 5, thread_action 0, thread_action 0, resume_action 60] (init 0)) = []
   \<and> calls_by (Task 0) (run ascii ''secret''
        ([pause_action 5, thread_action 0, thread_action 0, resume_action 60] @
         [pause_action 70, thread_action 1] @ replicate 240 (thread_action 0)) (init 0))
     = [(Task 0, Disable)]
   \<and> pc (threads (run ascii ''secret'' (pause_action 5 # replicate 240 (thread_action 0))
        (init 0)) ! 0) = Sleeping 119
   \<and> resume_event (run ascii ''secret''
        (pause_action 5 # replicate 240 (thread_action 0) @ [resume_action 119500005]) (init 0))
   \<and> calls_by (Task 0) (run ascii ''secret''
        (pause_action 5 # replicate 240 (thread_action 0) @ [resume_action 119500005])
        (init 0)) = []
   \<and> calls_by (Task 0) (run ascii ''secret''
        (pause_action 5 # replicate 240 (thread_action 0) @
          [resume_action 119500005, thread_action 0, thread_action 0]) (init 0))
     = [(Task 0, Disable)]"
proof -
  have "pc (threads (run ascii ''secret'' [pause_action 5, thread_action 0, thread_action 0]
      (init 0)) ! 0) = Sleeping 0"
    by code_simp
  moreover have "resume_event (run ascii ''secret''
      [pause_action 5, thread_action 0, thread_action 0, resume_action 60] (init 0))"
    by code_simp
  moreover have "calls_by (Task 0) (run ascii ''secret''
      [pause_action 5, thread_action 0, thread_action 0, resume_action 60] (init 0)) = []"
    by code_simp
  moreover have "calls_by (Task 0) (run ascii ''secret''
      ([pause_action 5, thread_action 0, thread_action 0, resume_action 60] @
       [pause_action 70, thread_action 1] @ replicate 240 (thread_action 0)) (init 0))
     = [(Task 0, Disable)]"
    by code_simp
  moreover have "pc (threads (run ascii ''secret''
      (pause_action 5 # replicate 240 (thread_action 0)) (init 0)) ! 0) = Sleeping 119"
    by code_simp
  moreover have "resume_event (run ascii ''secret''
      (pause_action 5 # replicate 240 (thread_action 0) @ [resume_action 119500005]) (init 0))"
    by code_simp
  moreover have "calls_by (Task 0) (run ascii ''secret''
      (pause_action 5 # replicate 240 (thread_action 0) @ [resume_action 119500005])
      (init 0)) = []"
    by code_simp
  moreover have "calls_by (Task 0) (run ascii ''secret''
      (pause_action 5 # replicate 240 (thread_action 0) @
        [resume_action 119500005, thread_action 0, thread_action 0]) (init 0))
     = [(Task 0, Disable)]"
    by code_simp
  ultimately show ?thesis
    by blast
qed

text \<open>
  What the set \<^verbatim>\<open>resume_event\<close> does reach. A start or resume request sets it for all
  threads at once: in the runs where no thread takes its first step afterwards,
  every thread that was at the loop test with \<^verbatim>\<open>elapsed < 120\<close>, or asleep with that
  loop test still ahead, makes no call of \<^verbatim>\<open>ssh_execute_command\<close>, never expires, and
  is cancelled once it has been scheduled twice.
\<close>

lemma set_cancels_waiting_threads:
  assumes "receive py tok req = (Notification event n, ls)"
    and "event = ''playback_start'' \<or> event = ''playback_resume''"
    and "i < length (threads s)"
    and "(\<exists>k. pc (threads s ! i) = Loop_test k \<and> k < 120) \<or>
         (\<exists>k. pc (threads s ! i) = Sleeping k \<and> k + 1 < 120)"
    and "no_clear py tok acts (step py tok (Request req now outcome) s)"
  shows "calls_by (Task i) (run py tok acts (step py tok (Request req now outcome) s)) =
           calls_by (Task i) s
    \<and> pc (threads (run py tok acts (step py tok (Request req now outcome) s)) ! i) \<noteq> Expired
    \<and> (2 \<le> steps_of i acts \<longrightarrow>
         pc (threads (run py tok acts (step py tok (Request req now outcome) s)) ! i) = Cancelled)"
proof -
  let ?s1 = "step py tok (Request req now outcome) s"
  from enable_sets [OF assms(1) assms(2), of now outcome s i] assms(3) assms(4)
  have "cancel_inv i (calls_by (Task i) s) 0 ?s1"
    by (auto simp: cancel_inv_def delay_seconds_def)
  from cancel_inv_run [OF this assms(5)] show ?thesis
    by (auto simp: cancel_inv_def split: pc.splits)
qed

lemma set_cancels_waiting_threads_example:
  "pc (threads (run ascii ''secret''
        [pause_action 5, thread_action 0, thread_action 0, pause_action 6, thread_action 1]
        (init 0)) ! 0) = Sleeping 0
   \<and> pc (threads (run ascii ''secret''
        [pause_action 5, thread_action 0, thread_action 0, pause_action 6, thread_action 1]
        (init 0)) ! 1) = Loop_test 0
   \<and> calls_by (Task 0) (run ascii ''secret''
        [thread_action 1, thread_action 0, thread_action 0, thread_action 1]
        (step ascii ''secret'' (resume_action 60) (run ascii ''secret''
          [pause_action 5, thread_action 0, thread_action 0, pause_action 6, thread_action 1]
          (init 0)))) = []
   \<and> pc (threads (run ascii ''secret''
        [thread_action 1, thread_action 0, thread_action 0, thread_action 1]
        (step ascii ''secret'' (resume_action 60) (run ascii ''secret''
          [pause_action 5, thread_action 0, thread_action 0, pause_action 6, thread_action 1]
          (init 0)))) ! 0) = Cancelled
   \<and> pc (threads (run ascii ''secret''
        [thread_action 1, thread_action 0, thread_action 0, thread_action 1]
        (step ascii ''secret'' (resume_action 60) (run ascii ''secret''
          [pause_action 5, thread_action 0, thread_action 0, pause_action 6, thread_action 1]
          (init 0)))) ! 1) = Cancelled"
proof -
  let ?s = "run ascii ''secret''
    [pause_action 5, thread_action 0, thread_action 0, pause_action 6, thread_action 1] (init 0)"
  let ?acts = "[thread_action 1, thread_action 0, thread_action 0, thread_action 1]"
  note r = receive_example [of ascii "''playback_resume''" 0, unfolded lower_examples]
  have e: "''playback_resume'' = ''playback_start'' \<or> ''playback_resume'' = ''playback_resume''"
    by simp
  have len: "0 < length (threads ?s)" "1 < length (threads ?s)"
    by code_simp+
  have pc0: "pc (threads ?s ! 0) = Sleeping 0" and pc1: "pc (threads ?s ! 1) = Loop_test 0"
    by code_simp+
  from pc0 have w0: "(\<exists>k. pc (threads ?s ! 0) = Loop_test k \<and> k < 120) \<or>
      (\<exists>k. pc (threads ?s ! 0) = Sleeping k \<and> k + 1 < 120)"
    by simp
  from pc1 have w1: "(\<exists>k. pc (threads ?s ! 1) = Loop_test k \<and> k < 120) \<or>
      (\<exists>k. pc (threads ?s ! 1) = Sleeping k \<and> k + 1 < 120)"
    by simp
  have quiet: "no_clear ascii ''secret'' ?acts (step ascii ''secret''
      (Request (example_request ''playback_resume'' (JInt 0)) 60 (Completed ''ok'' [])) ?s)"
    by code_simp
  have calls: "calls_by (Task 0) ?s = []"
    by code_simp
  have two: "2 \<le> steps_of 0 ?acts" "2 \<le> steps_of 1 ?acts"
    by code_simp+
  from set_cancels_waiting_threads [OF r e len(1) w0 quiet] calls two(1)
  have 0: "calls_by (Task 0) (run ascii ''secret'' ?acts (step ascii ''secret'' (resume_action 60) ?s)) = []"
    "pc (threads (run ascii ''secret'' ?acts (step ascii ''secret'' (resume_action 60) ?s)) ! 0) = Cancelled"
    by (simp_all add: resume_action_def)
  from set_cancels_waiting_threads [OF r e len(2) w1 quiet] two(2)
  have 1: "pc (threads (run ascii ''secret'' ?acts (step ascii ''secret'' (resume_action 60) ?s)) ! 1)
      = Cancelled"
    by (simp add: resume_action_def)
  from pc0 pc1 0 1 show ?thesis
    by blast
qed

end
